theory Spec2Isabelle
  imports Complex_Main "HOL-Library.AList"
begin

section \<open>Finite-difference stencils (findiff/stencils.py)\<close>

text \<open>
  A shallow embedding of the class \<open>Stencil\<close>. Python dictionaries are association
  lists with distinct keys in insertion order (\<open>map_of\<close> reads, \<open>AList.update\<close> writes:
  an existing key keeps its place, a new key goes to the end). Weights are real numbers:
  the rounding of Python floats is outside this model.
\<close>

subsection \<open>Data model\<close>

text \<open>The Python exceptions the code can raise.\<close>

datatype error =
    KeyError
  | IndexError
  | ValueError
  | TypeError
  | AssertionError
  | ZeroDivisionError
  | GeneratorError

text \<open>The symbols \<open>'L'\<close>, \<open>'C'\<close>, \<open>'H'\<close> of a characteristic point, one per axis.\<close>

datatype sym = Low | Center | High

text \<open>The keys \<open>'forward'\<close>, \<open>'center'\<close>, \<open>'backward'\<close> of the coefficient tables.\<close>

datatype scheme = forward | center | backward

type_synonym pattern = "sym list"
type_synonym offset = "int list"
type_synonym lstl = "(offset \<times> real) list"
type_synonym table = "(pattern \<times> lstl) list"

text \<open>
  What \<open>coefficients(order, acc)[scheme]\<close> returns: the dictionary with the keys
  \<open>'offsets'\<close> and \<open>'coefficients'\<close>. The generator itself (\<open>coefs.py\<close>) is not part of
  the source; every function that calls it takes it as the parameter \<open>gen\<close>, which may
  fail with \<open>GeneratorError\<close>.
\<close>

record scheme_coefs =
  offsets :: "int list"
  coefficients :: "real list"

type_synonym coef_gen = "int \<Rightarrow> int \<Rightarrow> error + (scheme \<Rightarrow> scheme_coefs)"

text \<open>
  The store of the stencil tables. \<open>Stencil.__init__\<close> binds \<open>self.data\<close> to the
  dictionary object of \<open>old_stl\<close>, so two stencils can hold the same table: a stencil
  holds the address of its table, and the store maps addresses to tables. \<open>nxt\<close> is the
  first address not yet allocated. The local dictionaries inside a table are kept as
  values: the code never stores one local dictionary in two places (each is created by
  \<open>{}\<close> or by \<open>deepcopy\<close> and written back under the key it was read from).
\<close>

type_synonym addr = nat

record heap =
  cells :: "addr \<Rightarrow> table"
  nxt :: addr

definition alloc :: "heap \<Rightarrow> table \<Rightarrow> heap \<times> addr" where
  "alloc hp t = (hp\<lparr>cells := (cells hp)(nxt hp := t), nxt := Suc (nxt hp)\<rparr>, nxt hp)"

record stencil =
  shape :: "int list"
  axis :: int
  order :: int
  h :: real
  acc :: int
  data :: addr

text \<open>
  A numpy array: its shape, the kind of its element type, and its elements by index
  tuple (only the tuples inside the shape are meaningful).
\<close>

datatype dtype = int64 | float64

record ndarray =
  a_shape :: "nat list"
  a_dtype :: dtype
  a_val :: "nat list \<Rightarrow> real"

text \<open>An index argument: \<open>hasattr(idx0, '__len__')\<close> tells a tuple from an integer.\<close>

datatype index = IntIdx int | TupleIdx "int list"

text \<open>What \<open>u[tuple(idx)]\<close> yields: an element, or a sub-array when \<open>idx\<close> is shorter
  than the rank of \<open>u\<close>.\<close>

datatype item = Scalar real | SubArray ndarray

subsection \<open>Boundary classification\<close>

text \<open>
  \<open>type_for_point\<close> runs over \<open>range(len(idx))\<close>; \<open>self.shape[axis]\<close> is read only
  when \<open>idx[axis]\<close> is not zero, and raises IndexError beyond the shape.
\<close>

fun type_for_point_loop :: "int list \<Rightarrow> int list \<Rightarrow> nat list \<Rightarrow> error + pattern" where
  "type_for_point_loop shp idx [] = Inr []"
| "type_for_point_loop shp idx (ax # axes) =
     (if idx ! ax = 0 then
        (case type_for_point_loop shp idx axes of
           Inl e \<Rightarrow> Inl e | Inr typ \<Rightarrow> Inr (Low # typ))
      else if length shp \<le> ax then Inl IndexError
      else if idx ! ax = shp ! ax - 1 then
        (case type_for_point_loop shp idx axes of
           Inl e \<Rightarrow> Inl e | Inr typ \<Rightarrow> Inr (High # typ))
      else
        (case type_for_point_loop shp idx axes of
           Inl e \<Rightarrow> Inl e | Inr typ \<Rightarrow> Inr (Center # typ)))"

fun Stencil_type_for_point :: "stencil \<Rightarrow> index \<Rightarrow> error + pattern" where
  "Stencil_type_for_point self (IntIdx i) = Inl TypeError"
| "Stencil_type_for_point self (TupleIdx idx) =
     type_for_point_loop (shape self) idx [0..<length idx]"

text \<open>
  The classification written out again inside \<open>apply\<close>: it runs over
  \<open>range(len(self.shape))\<close>, and \<open>idx0[axis]\<close> raises IndexError beyond the tuple.
\<close>

fun apply_typ_loop :: "int list \<Rightarrow> int list \<Rightarrow> nat list \<Rightarrow> error + pattern" where
  "apply_typ_loop shp idx0 [] = Inr []"
| "apply_typ_loop shp idx0 (ax # axes) =
     (if length idx0 \<le> ax then Inl IndexError
      else if idx0 ! ax = 0 then
        (case apply_typ_loop shp idx0 axes of
           Inl e \<Rightarrow> Inl e | Inr typ \<Rightarrow> Inr (Low # typ))
      else if idx0 ! ax = shp ! ax - 1 then
        (case apply_typ_loop shp idx0 axes of
           Inl e \<Rightarrow> Inl e | Inr typ \<Rightarrow> Inr (High # typ))
      else
        (case apply_typ_loop shp idx0 axes of
           Inl e \<Rightarrow> Inl e | Inr typ \<Rightarrow> Inr (Center # typ)))"


subsection \<open>Python and numpy primitives\<close>

text \<open>Indexing a sequence of length \<open>n\<close> by an integer: a negative index counts from
  the end, anything outside \<open>[-n, n)\<close> raises IndexError.\<close>

definition py_index :: "nat \<Rightarrow> int \<Rightarrow> error + nat" where
  "py_index n i =
     (if 0 \<le> i \<and> i < int n then Inr (nat i)
      else if - int n \<le> i \<and> i < 0 then Inr (nat (int n + i))
      else Inl IndexError)"

text \<open>The index tuple of \<open>u[tuple(idx)]\<close>, axis by axis; more indices than axes raise
  IndexError.\<close>

fun norm_index :: "nat list \<Rightarrow> int list \<Rightarrow> error + nat list" where
  "norm_index shp [] = Inr []"
| "norm_index [] (i # idx) = Inl IndexError"
| "norm_index (n # shp) (i # idx) =
     (case py_index n i of
        Inl e \<Rightarrow> Inl e
      | Inr j \<Rightarrow>
          (case norm_index shp idx of
             Inl e \<Rightarrow> Inl e
           | Inr js \<Rightarrow> Inr (j # js)))"

definition getitem :: "ndarray \<Rightarrow> int list \<Rightarrow> error + item" where
  "getitem u idx =
     (case norm_index (a_shape u) idx of
        Inl e \<Rightarrow> Inl e
      | Inr js \<Rightarrow>
          if length js = length (a_shape u) then Inr (Scalar (a_val u js))
          else Inr (SubArray \<lparr>a_shape = drop (length js) (a_shape u),
                              a_dtype = a_dtype u,
                              a_val = (\<lambda>ks. a_val u (js @ ks))\<rparr>))"

text \<open>\<open>np.array(idx0) + o\<close> for a tuple \<open>o\<close>: element by element, a one-element operand
  is broadcast, any other length mismatch raises ValueError.\<close>

definition np_add :: "int list \<Rightarrow> int list \<Rightarrow> error + int list" where
  "np_add xs ys =
     (if length xs = length ys then Inr (map2 (+) xs ys)
      else if length xs = 1 then Inr (map (\<lambda>y. hd xs + y) ys)
      else if length ys = 1 then Inr (map (\<lambda>x. x + hd ys) xs)
      else Inl ValueError)"

text \<open>\<open>c * x\<close> and \<open>du + x\<close> where \<open>x\<close> is an element or a sub-array of \<open>u\<close>; the
  product with the float \<open>c\<close> is a float array.\<close>

fun item_scale :: "real \<Rightarrow> item \<Rightarrow> item" where
  "item_scale c (Scalar x) = Scalar (c * x)"
| "item_scale c (SubArray a) =
     SubArray (a\<lparr>a_dtype := float64, a_val := (\<lambda>ks. c * a_val a ks)\<rparr>)"

fun item_add :: "item \<Rightarrow> item \<Rightarrow> item" where
  "item_add (Scalar x) (Scalar y) = Scalar (x + y)"
| "item_add (Scalar x) (SubArray b) =
     SubArray (b\<lparr>a_dtype := float64, a_val := (\<lambda>ks. x + a_val b ks)\<rparr>)"
| "item_add (SubArray a) (Scalar y) =
     SubArray (a\<lparr>a_dtype := float64, a_val := (\<lambda>ks. a_val a ks + y)\<rparr>)"
| "item_add (SubArray a) (SubArray b) =
     SubArray (a\<lparr>a_dtype := float64, a_val := (\<lambda>ks. a_val a ks + a_val b ks)\<rparr>)"

text \<open>\<open>np.zeros_like(u)\<close>: a new array of the shape and element type of \<open>u\<close>.\<close>

definition zeros_like :: "ndarray \<Rightarrow> ndarray" where
  "zeros_like u = \<lparr>a_shape = a_shape u, a_dtype = a_dtype u, a_val = (\<lambda>ks. 0)\<rparr>"

text \<open>Storing a float into an array converts it to the element type of the array: an
  integer array keeps the integer part (rounding toward zero; the 64-bit range is not
  modelled).\<close>

definition astype :: "dtype \<Rightarrow> real \<Rightarrow> real" where
  "astype dt v =
     (case dt of
        int64 \<Rightarrow> (if 0 \<le> v then of_int \<lfloor>v\<rfloor> else of_int \<lceil>v\<rceil>)
      | float64 \<Rightarrow> v)"

text \<open>\<open>du[idx] = x\<close>. A scalar under a full index is stored in one cell, under a shorter
  index it fills the sub-array; storing an array into a cell raises ValueError (numpy
  still accepts a one-element array there; no table the constructor builds leads to
  it).\<close>

definition setitem :: "ndarray \<Rightarrow> index \<Rightarrow> item \<Rightarrow> error + ndarray" where
  "setitem du idx x =
     (case norm_index (a_shape du) (case idx of IntIdx i \<Rightarrow> [i] | TupleIdx t \<Rightarrow> t) of
        Inl e \<Rightarrow> Inl e
      | Inr js \<Rightarrow>
          (case x of
             Scalar v \<Rightarrow>
               if length js = length (a_shape du)
               then Inr (du\<lparr>a_val := (a_val du)(js := astype (a_dtype du) v)\<rparr>)
               else Inr (du\<lparr>a_val := (\<lambda>ks. if take (length js) ks = js
                                               then astype (a_dtype du) v
                                               else a_val du ks)\<rparr>)
           | SubArray a \<Rightarrow> Inl ValueError))"

subsection \<open>Construction of the table\<close>

text \<open>\<open>_det_characteristic_points\<close>: \<open>product(*[("L", "C", "H")] * ndim)\<close>, the first
  axis varying slowest.\<close>

definition Stencil_det_characteristic_points :: "stencil \<Rightarrow> pattern list" where
  "Stencil_det_characteristic_points self =
     product_lists (replicate (length (shape self)) [Low, Center, High])"

definition smap :: "sym \<Rightarrow> scheme" where
  "smap s = (case s of Low \<Rightarrow> forward | Center \<Rightarrow> center | High \<Rightarrow> backward)"

text \<open>
  The inner loop of \<open>_create_stencil\<close> over \<open>zip(coefs['offsets'], coefs['coefficients'])\<close>.
  \<open>long_off\<close> is the tuple that is zero except at \<open>axis\<close>; \<open>d\<close> is \<open>h ** order\<close>; it is zero exactly when \<open>h\<close> is zero and \<open>order\<close> is not, where
  the Python float arithmetic raises ZeroDivisionError.
\<close>

definition long_off :: "nat \<Rightarrow> nat \<Rightarrow> int \<Rightarrow> offset" where
  "long_off ndim k off = (replicate ndim 0)[k := 0 + off]"

fun add_offsets :: "nat \<Rightarrow> int \<Rightarrow> real \<Rightarrow> (int \<times> real) list \<Rightarrow> lstl \<Rightarrow> error + lstl" where
  "add_offsets ndim ax d [] lstl = Inr lstl"
| "add_offsets ndim ax d ((off, c) # rest) lstl =
     (case py_index ndim ax of
        Inl e \<Rightarrow> Inl e
      | Inr k \<Rightarrow>
          if d = 0 then Inl ZeroDivisionError
          else
            (case map_of lstl (long_off ndim k off) of
               Some w \<Rightarrow>
                 add_offsets ndim ax d rest (AList.update (long_off ndim k off) (w + c / d) lstl)
             | None \<Rightarrow>
                 add_offsets ndim ax d rest (AList.update (long_off ndim k off) (c / d) lstl)))"

text \<open>The body of the loop \<open>for pt in self.char_pts\<close>.\<close>

definition create_step :: "coef_gen \<Rightarrow> stencil \<Rightarrow> pattern \<Rightarrow> table \<Rightarrow> error + table" where
  "create_step gen self pt dat =
     (case py_index (length pt) (axis self) of
        Inl e \<Rightarrow> Inl e
      | Inr k \<Rightarrow>
          (case gen (order self) (acc self) of
             Inl e \<Rightarrow> Inl e
           | Inr cf \<Rightarrow>
               (let coefs = cf (smap (pt ! k));
                    lstl = (case map_of dat pt of Some l \<Rightarrow> l | None \<Rightarrow> [])
                in case add_offsets (length (shape self)) (axis self)
                          (h self powi order self)
                          (zip (offsets coefs) (coefficients coefs)) lstl of
                     Inl e \<Rightarrow> Inl e
                   | Inr lstl' \<Rightarrow> Inr (AList.update pt lstl' dat))))"

text \<open>The loop itself: an exception leaves the table as the earlier patterns made it.\<close>

fun create_loop :: "coef_gen \<Rightarrow> stencil \<Rightarrow> pattern list \<Rightarrow> table \<Rightarrow> table \<times> error option" where
  "create_loop gen self [] dat = (dat, None)"
| "create_loop gen self (pt # pts) dat =
     (case create_step gen self pt dat of
        Inl e \<Rightarrow> (dat, Some e)
      | Inr dat' \<Rightarrow> create_loop gen self pts dat')"

text \<open>\<open>_create_stencil\<close> works on the dictionary object \<open>self.data\<close> in place.\<close>

definition Stencil_create_stencil :: "coef_gen \<Rightarrow> heap \<Rightarrow> stencil \<Rightarrow> heap \<times> error option" where
  "Stencil_create_stencil gen hp self =
     (case create_loop gen self (Stencil_det_characteristic_points self)
             (cells hp (data self)) of
        (dat, err) \<Rightarrow> (hp\<lparr>cells := (cells hp)(data self := dat)\<rparr>, err))"

text \<open>
  \<open>__init__\<close>. A stencil object is always true in \<open>if old_stl:\<close>, so a given seed
  makes \<open>self.data\<close> the seed's own dictionary; without a seed a new empty dictionary
  is allocated. When \<open>_create_stencil\<close> raises, the caller gets no object.
\<close>

definition Stencil_init ::
  "coef_gen \<Rightarrow> heap \<Rightarrow> int list \<Rightarrow> int \<Rightarrow> int \<Rightarrow> real \<Rightarrow> int \<Rightarrow> stencil option
     \<Rightarrow> heap \<times> (error + stencil)" where
  "Stencil_init gen hp shp ax ord hh ac old_stl =
     (case (case old_stl of Some old \<Rightarrow> (hp, data old) | None \<Rightarrow> alloc hp []) of
        (hp1, ref) \<Rightarrow>
          (let self = \<lparr>shape = shp, axis = ax, order = ord, h = hh, acc = ac, data = ref\<rparr>
           in case Stencil_create_stencil gen hp1 self of
                (hp2, None) \<Rightarrow> (hp2, Inr self)
              | (hp2, Some e) \<Rightarrow> (hp2, Inl e)))"

subsection \<open>Application\<close>

text \<open>The loop \<open>for o, c in stl.items()\<close> of \<open>apply\<close>.\<close>

fun apply_loop :: "ndarray \<Rightarrow> int list \<Rightarrow> lstl \<Rightarrow> item \<Rightarrow> error + item" where
  "apply_loop u idx0 [] du = Inr du"
| "apply_loop u idx0 ((off, c) # stl) du =
     (case np_add idx0 off of
        Inl e \<Rightarrow> Inl e
      | Inr idx \<Rightarrow>
          (case getitem u idx of
             Inl e \<Rightarrow> Inl e
           | Inr x \<Rightarrow> apply_loop u idx0 stl (item_add du (item_scale c x))))"

definition Stencil_apply :: "heap \<Rightarrow> stencil \<Rightarrow> ndarray \<Rightarrow> index \<Rightarrow> error + item" where
  "Stencil_apply hp self u idx =
     (let idx0 = (case idx of IntIdx i \<Rightarrow> [i] | TupleIdx t \<Rightarrow> t) in
      case apply_typ_loop (shape self) idx0 [0..<length (shape self)] of
        Inl e \<Rightarrow> Inl e
      | Inr typ \<Rightarrow>
          (case map_of (cells hp (data self)) typ of
             None \<Rightarrow> Inl KeyError
           | Some stl \<Rightarrow> apply_loop u idx0 stl (Scalar 0)))"

text \<open>The loop \<open>for idx in indices: du[idx] = self.apply(u, idx)\<close>.\<close>

fun apply_all_loop ::
  "heap \<Rightarrow> stencil \<Rightarrow> ndarray \<Rightarrow> index list \<Rightarrow> ndarray \<Rightarrow> error + ndarray" where
  "apply_all_loop hp self u [] du = Inr du"
| "apply_all_loop hp self u (idx # indices) du =
     (case Stencil_apply hp self u idx of
        Inl e \<Rightarrow> Inl e
      | Inr x \<Rightarrow>
          (case setitem du idx x of
             Inl e \<Rightarrow> Inl e
           | Inr du' \<Rightarrow> apply_all_loop hp self u indices du'))"

text \<open>The indices \<open>apply_all\<close> visits: integers for one axis, otherwise the product of
  the ranges of all axes.\<close>

definition all_indices :: "ndarray \<Rightarrow> index list" where
  "all_indices u =
     (if length (a_shape u) = 1 then map (\<lambda>i. IntIdx (int i)) [0..<hd (a_shape u)]
      else map (\<lambda>js. TupleIdx (map int js))
             (product_lists (map (\<lambda>n. [0..<n]) (a_shape u))))"

definition Stencil_apply_all :: "heap \<Rightarrow> stencil \<Rightarrow> ndarray \<Rightarrow> error + ndarray" where
  "Stencil_apply_all hp self u =
     (if shape self \<noteq> map int (a_shape u) then Inl AssertionError
      else apply_all_loop hp self u (all_indices u) (zeros_like u))"

definition Stencil_for_point :: "heap \<Rightarrow> stencil \<Rightarrow> index \<Rightarrow> error + lstl" where
  "Stencil_for_point hp self idx =
     (case Stencil_type_for_point self idx of
        Inl e \<Rightarrow> Inl e
      | Inr typ \<Rightarrow>
          (case map_of (cells hp (data self)) typ of
             None \<Rightarrow> Inl KeyError
           | Some stl \<Rightarrow> Inr stl))"

subsection \<open>Combination\<close>

text \<open>The inner loop of \<open>_binaryop\<close> over \<open>other_single_stl.items()\<close>, writing into
  the local dictionary of the copy.\<close>

fun binaryop_single :: "(real \<Rightarrow> real \<Rightarrow> real) \<Rightarrow> lstl \<Rightarrow> lstl \<Rightarrow> lstl" where
  "binaryop_single opr [] single_stl = single_stl"
| "binaryop_single opr ((off, c) # rest) single_stl =
     (case map_of single_stl off of
        Some w \<Rightarrow> binaryop_single opr rest (AList.update off (opr w c) single_stl)
      | None \<Rightarrow> binaryop_single opr rest (AList.update off (opr 0 c) single_stl))"

text \<open>The outer loop over \<open>stl.data.items()\<close>; \<open>other.data[char_pt]\<close> raises KeyError
  for a pattern the other table lacks, and the patterns before it are already
  combined.\<close>

fun binaryop_loop :: "(real \<Rightarrow> real \<Rightarrow> real) \<Rightarrow> table \<Rightarrow> table \<Rightarrow> table \<times> error option" where
  "binaryop_loop opr other_data [] = ([], None)"
| "binaryop_loop opr other_data ((char_pt, single_stl) # rest) =
     (case map_of other_data char_pt of
        None \<Rightarrow> ((char_pt, single_stl) # rest, Some KeyError)
      | Some other_single_stl \<Rightarrow>
          (case binaryop_loop opr other_data rest of
             (rest', err) \<Rightarrow>
               ((char_pt, binaryop_single opr other_single_stl single_stl) # rest', err)))"

text \<open>\<open>_binaryop\<close>: the deep copy is made before the shapes are compared. It copies
  the attributes of \<open>self\<close> and gives the copy a table of its own at a new address
  (the exhausted iterator \<open>char_pts\<close> is not part of the model).\<close>

definition Stencil_binaryop ::
  "heap \<Rightarrow> stencil \<Rightarrow> stencil \<Rightarrow> (real \<Rightarrow> real \<Rightarrow> real) \<Rightarrow> heap \<times> (error + stencil)" where
  "Stencil_binaryop hp self other opr =
     (case alloc hp (cells hp (data self)) of
        (hp1, ref) \<Rightarrow>
          (let stl = self\<lparr>data := ref\<rparr> in
           if shape stl \<noteq> shape other then (hp1, Inl AssertionError)
           else
             (case binaryop_loop opr (cells hp1 (data other)) (cells hp1 (data stl)) of
                (dat, None) \<Rightarrow> (hp1\<lparr>cells := (cells hp1)(data stl := dat)\<rparr>, Inr stl)
              | (dat, Some e) \<Rightarrow> (hp1\<lparr>cells := (cells hp1)(data stl := dat)\<rparr>, Inl e))))"

definition Stencil_add :: "heap \<Rightarrow> stencil \<Rightarrow> stencil \<Rightarrow> heap \<times> (error + stencil)" where
  "Stencil_add hp self other = Stencil_binaryop hp self other (+)"

definition Stencil_sub :: "heap \<Rightarrow> stencil \<Rightarrow> stencil \<Rightarrow> heap \<times> (error + stencil)" where
  "Stencil_sub hp self other = Stencil_binaryop hp self other (-)"


subsection \<open>Notions used in the statements\<close>

text \<open>The weight a local dictionary gives an offset, zero for an offset it does not
  hold.\<close>

definition weight_of :: "lstl \<Rightarrow> offset \<Rightarrow> real" where
  "weight_of l key = (case map_of l key of None \<Rightarrow> 0 | Some w \<Rightarrow> w)"

text \<open>An association list stands for a dictionary when its keys are distinct; a table
  is well formed when this holds of the table and of each of its local dictionaries.\<close>

definition dict_ok :: "('k \<times> 'v) list \<Rightarrow> bool" where
  "dict_ok al = distinct (map fst al)"

definition table_ok :: "table \<Rightarrow> bool" where
  "table_ok t = (dict_ok t \<and> list_all (\<lambda>(pt, l). dict_ok l) t)"

text \<open>A stencil is well formed in a store when its table is allocated, is well formed
  and has the characteristic points of the stencil's shape as its keys.\<close>

definition stencil_ok :: "heap \<Rightarrow> stencil \<Rightarrow> bool" where
  "stencil_ok hp s =
     (data s < nxt hp \<and> table_ok (cells hp (data s)) \<and>
      set (map fst (cells hp (data s))) = set (Stencil_det_characteristic_points s))"


subsection \<open>Concrete instances\<close>

text \<open>
  Modelled from the spec: the coefficient generator \<open>coefficients(order, accuracy)\<close> of
  \<open>coefs.py\<close>, which is not part of the source, at order 1 and accuracy 2. It returns
  the canonical forward, center and backward tables of the first derivative, offsets
  paired positionally with coefficients.
\<close>

definition coefs_1_2 :: "scheme \<Rightarrow> scheme_coefs" where
  "coefs_1_2 s =
     (case s of
        forward \<Rightarrow> \<lparr>offsets = [0, 1, 2], coefficients = [-3/2, 2, -1/2]\<rparr>
      | center \<Rightarrow> \<lparr>offsets = [-1, 0, 1], coefficients = [-1/2, 0, 1/2]\<rparr>
      | backward \<Rightarrow> \<lparr>offsets = [-2, -1, 0], coefficients = [1/2, -2, 3/2]\<rparr>)"

text \<open>A generator that knows these tables only.\<close>

definition gen_1_2 :: coef_gen where
  "gen_1_2 ord ac = (if ord = 1 \<and> ac = 2 then Inr coefs_1_2 else Inl GeneratorError)"

definition empty_heap :: heap where
  "empty_heap = \<lparr>cells = (\<lambda>a. []), nxt = 0\<rparr>"

text \<open>The stencil of \<open>Stencil((5,), 0, 1, 1.0, 2)\<close> built on the empty store, its table
  and the store it leaves.\<close>

definition table5 :: table where
  "table5 =
     [([Low], [([0], -3/2), ([1], 2), ([2], -1/2)]),
      ([Center], [([-1], -1/2), ([0], 0), ([1], 1/2)]),
      ([High], [([-2], 1/2), ([-1], -2), ([0], 3/2)])]"

definition stencil5 :: stencil where
  "stencil5 = \<lparr>shape = [5], axis = 0, order = 1, h = 1, acc = 2, data = 0\<rparr>"

definition heap5 :: heap where
  "heap5 = \<lparr>cells = (\<lambda>a. [])(0 := table5), nxt = 1\<rparr>"

text \<open>A store with a second stencil of the same shape, for the second derivative:
  its one-sided schemes reach one point further than those of \<open>stencil5\<close>.\<close>

definition table5b :: table where
  "table5b =
     [([Low], [([0], 2), ([1], -5), ([2], 4), ([3], -1)]),
      ([Center], [([-1], 1), ([0], -2), ([1], 1)]),
      ([High], [([-3], -1), ([-2], 4), ([-1], -5), ([0], 2)])]"

definition stencil5b :: stencil where
  "stencil5b = \<lparr>shape = [5], axis = 0, order = 2, h = 1, acc = 2, data = 1\<rparr>"

definition heap5b :: heap where
  "heap5b = \<lparr>cells = (\<lambda>a. [])(0 := table5, 1 := table5b), nxt = 2\<rparr>"

text \<open>The array \<open>[0, 1, 2, 3, 4]\<close> with a given element type.\<close>

definition ramp5 :: "dtype \<Rightarrow> ndarray" where
  "ramp5 dt = \<lparr>a_shape = [5], a_dtype = dt,
               a_val = (\<lambda>ks. case ks of [i] \<Rightarrow> real i | _ \<Rightarrow> 0)\<rparr>"


section \<open>Properties\<close>

subsection \<open>Boundary classification\<close>

lemma type_for_point_loop_map:
  "\<forall>ax\<in>set axes. ax < length shp \<Longrightarrow>
   type_for_point_loop shp idx axes =
     Inr (map (\<lambda>ax. if idx ! ax = 0 then Low
                     else if idx ! ax = shp ! ax - 1 then High else Center) axes)"
  by (induction axes) auto

lemma apply_typ_loop_map:
  "\<forall>ax\<in>set axes. ax < length idx0 \<Longrightarrow>
   apply_typ_loop shp idx0 axes =
     Inr (map (\<lambda>ax. if idx0 ! ax = 0 then Low
                     else if idx0 ! ax = shp ! ax - 1 then High else Center) axes)"
  by (induction axes) auto

text \<open>
  C3. For an index tuple as long as the shape, \<open>type_for_point\<close> returns a pattern of
  the same length whose symbol at every axis \<open>a\<close> is LOW when \<open>idx[a] = 0\<close>, HIGH when
  \<open>idx[a] = shape[a] - 1\<close> and \<open>idx[a]\<close> is not zero, and CENTER otherwise; the only
  in-range index of an axis of extent 1 is classified LOW. The result depends on the
  shape and the index only: every stencil of the same shape returns it.
\<close>

theorem type_for_point_classifies:
  assumes "length idx = length (shape self)"
  shows "\<exists>typ. Stencil_type_for_point self (TupleIdx idx) = Inr typ \<and>
           length typ = length idx \<and>
           (\<forall>a < length idx.
              (idx ! a = 0 \<longrightarrow> typ ! a = Low) \<and>
              (idx ! a \<noteq> 0 \<and> idx ! a = shape self ! a - 1 \<longrightarrow> typ ! a = High) \<and>
              (idx ! a \<noteq> 0 \<and> idx ! a \<noteq> shape self ! a - 1 \<longrightarrow> typ ! a = Center) \<and>
              (shape self ! a = 1 \<and> 0 \<le> idx ! a \<and> idx ! a < shape self ! a
                 \<longrightarrow> typ ! a = Low)) \<and>
           (\<forall>other. shape other = shape self \<longrightarrow>
              Stencil_type_for_point other (TupleIdx idx) = Inr typ)"
proof -
  let ?f = "\<lambda>ax. if idx ! ax = 0 then Low
                  else if idx ! ax = shape self ! ax - 1 then High else Center"
  have r: "type_for_point_loop (shape self) idx [0..<length idx] = Inr (map ?f [0..<length idx])"
    using assms by (intro type_for_point_loop_map) simp
  show ?thesis
    by (rule exI [of _ "map ?f [0..<length idx]"]) (simp add: r)
qed

theorem type_for_point_classifies_witness:
  "length [0, 2, 1, 0 :: int] =
     length (shape \<lparr>shape = [1, 3, 4, 5], axis = 0, order = 1, h = 1, acc = 2, data = 0\<rparr>) \<and>
   Stencil_type_for_point
     \<lparr>shape = [1, 3, 4, 5], axis = 0, order = 1, h = 1, acc = 2, data = 0\<rparr>
     (TupleIdx [0, 2, 1, 0]) = Inr [Low, High, Center, Low]"
proof -
  let ?s = "\<lparr>shape = [1, 3, 4, 5], axis = 0, order = 1, h = 1, acc = 2, data = 0\<rparr>"
  let ?i = "[0, 2, 1, 0 :: int]"
  have len: "length ?i = length (shape ?s)" by simp
  from type_for_point_classifies [OF len]
  obtain ty where t: "Stencil_type_for_point ?s (TupleIdx ?i) = Inr ty"
    and l: "length ty = length ?i"
    and c: "\<forall>a < length ?i.
              (?i ! a = 0 \<longrightarrow> ty ! a = Low) \<and>
              (?i ! a \<noteq> 0 \<and> ?i ! a = shape ?s ! a - 1 \<longrightarrow> ty ! a = High) \<and>
              (?i ! a \<noteq> 0 \<and> ?i ! a \<noteq> shape ?s ! a - 1 \<longrightarrow> ty ! a = Center) \<and>
              (shape ?s ! a = 1 \<and> 0 \<le> ?i ! a \<and> ?i ! a < shape ?s ! a \<longrightarrow> ty ! a = Low)"
    by blast
  have "ty ! 0 = Low" "ty ! 1 = High" "ty ! 2 = Center" "ty ! 3 = Low"
    using c [rule_format, of 0] c [rule_format, of 1] c [rule_format, of 2]
      c [rule_format, of 3]
    by simp_all
  with l have "ty = [Low, High, Center, Low]"
    by (auto simp: list_eq_iff_nth_eq less_Suc_eq numeral_eq_Suc)
  with t len show ?thesis by blast
qed

text \<open>
  C10. For an index tuple as long as the shape, the classification that \<open>apply\<close>
  computes inline is the one \<open>type_for_point\<close> returns, and \<open>apply\<close> is the weighted
  sum over the local dictionary that \<open>for_point\<close> returns (failing as \<open>for_point\<close>
  does when the pattern is not in the table).
\<close>

theorem apply_classification_agrees:
  assumes "length idx = length (shape self)"
  shows "apply_typ_loop (shape self) idx [0..<length (shape self)] =
           Stencil_type_for_point self (TupleIdx idx) \<and>
         Stencil_apply hp self u (TupleIdx idx) =
           (case Stencil_for_point hp self (TupleIdx idx) of
              Inl e \<Rightarrow> Inl e
            | Inr stl \<Rightarrow> apply_loop u idx stl (Scalar 0))"
proof -
  let ?f = "\<lambda>ax. if idx ! ax = 0 then Low
                  else if idx ! ax = shape self ! ax - 1 then High else Center"
  let ?axes = "[0..<length (shape self)]"
  have a: "apply_typ_loop (shape self) idx ?axes = Inr (map ?f ?axes)"
    using assms by (intro apply_typ_loop_map) simp
  have b: "type_for_point_loop (shape self) idx ?axes = Inr (map ?f ?axes)"
    by (intro type_for_point_loop_map) simp
  show ?thesis
    by (simp add: Stencil_apply_def Stencil_for_point_def assms a b split: option.splits)
qed

theorem apply_classification_agrees_witness:
  "length [4 :: int] = length (shape stencil5) \<and>
   apply_typ_loop (shape stencil5) [4] [0..<length (shape stencil5)] = Inr [High] \<and>
   Stencil_type_for_point stencil5 (TupleIdx [4]) = Inr [High] \<and>
   Stencil_for_point heap5 stencil5 (TupleIdx [4]) =
     Inr [([-2], 1/2), ([-1], -2), ([0], 3/2)] \<and>
   Stencil_apply heap5 stencil5 (ramp5 float64) (TupleIdx [4]) =
     apply_loop (ramp5 float64) [4] [([-2], 1/2), ([-1], -2), ([0], 3/2)] (Scalar 0)"
proof -
  have len: "length [4 :: int] = length (shape stencil5)"
    by (simp add: stencil5_def)
  have t: "Stencil_type_for_point stencil5 (TupleIdx [4]) = Inr [High]"
    by (simp add: stencil5_def)
  have f: "Stencil_for_point heap5 stencil5 (TupleIdx [4]) =
             Inr [([-2], 1/2), ([-1], -2), ([0], 3/2)]"
    by (simp add: Stencil_for_point_def stencil5_def heap5_def table5_def)
  note r = apply_classification_agrees [OF len, of heap5 "ramp5 float64"]
  from r [THEN conjunct1] t
  have a: "apply_typ_loop (shape stencil5) [4] [0..<length (shape stencil5)] = Inr [High]"
    by (rule trans)
  from r [THEN conjunct2]
  have b: "Stencil_apply heap5 stencil5 (ramp5 float64) (TupleIdx [4]) =
             apply_loop (ramp5 float64) [4] [([-2], 1/2), ([-1], -2), ([0], 3/2)] (Scalar 0)"
    unfolding f by (simp only: sum.case)
  from len a t f b show ?thesis by (intro conjI)
qed

subsection \<open>Mismatched shapes\<close>

text \<open>
  C7. \<open>apply_all\<close> on an array whose shape differs from the grid shape fails with the
  assertion and returns no array (it never writes the store). \<open>+\<close> and \<open>-\<close> on
  stencils of different shapes fail with the assertion and return no stencil; every
  table that existed before the call is unchanged (the deep copy made before the
  assertion lies at a new address that nothing refers to).
\<close>

theorem shape_mismatch_fails:
  "(shape self \<noteq> map int (a_shape u) \<longrightarrow>
      Stencil_apply_all hp self u = Inl AssertionError) \<and>
   (shape self \<noteq> shape other \<longrightarrow>
      snd (Stencil_add hp self other) = Inl AssertionError \<and>
      snd (Stencil_sub hp self other) = Inl AssertionError \<and>
      (\<forall>a < nxt hp. cells (fst (Stencil_add hp self other)) a = cells hp a \<and>
                     cells (fst (Stencil_sub hp self other)) a = cells hp a))"
  by (simp add: Stencil_apply_all_def Stencil_add_def Stencil_sub_def Stencil_binaryop_def
      alloc_def)

theorem shape_mismatch_fails_witness:
  "shape stencil5 \<noteq> map int (a_shape ((ramp5 int64)\<lparr>a_shape := [4]\<rparr>)) \<and>
   Stencil_apply_all heap5 stencil5 ((ramp5 int64)\<lparr>a_shape := [4]\<rparr>) = Inl AssertionError \<and>
   shape stencil5 \<noteq> shape (stencil5\<lparr>shape := [5, 5]\<rparr>) \<and>
   snd (Stencil_add heap5 stencil5 (stencil5\<lparr>shape := [5, 5]\<rparr>)) = Inl AssertionError \<and>
   snd (Stencil_sub heap5 stencil5 (stencil5\<lparr>shape := [5, 5]\<rparr>)) = Inl AssertionError \<and>
   (0 :: nat) < nxt heap5 \<and>
   cells (fst (Stencil_add heap5 stencil5 (stencil5\<lparr>shape := [5, 5]\<rparr>))) 0 = table5 \<and>
   cells (fst (Stencil_sub heap5 stencil5 (stencil5\<lparr>shape := [5, 5]\<rparr>))) 0 = table5"
proof -
  have a: "shape stencil5 \<noteq> map int (a_shape ((ramp5 int64)\<lparr>a_shape := [4]\<rparr>))"
    by (simp add: stencil5_def ramp5_def)
  have b: "shape stencil5 \<noteq> shape (stencil5\<lparr>shape := [5, 5]\<rparr>)"
    by (simp add: stencil5_def)
  have c: "(0 :: nat) < nxt heap5" "cells heap5 0 = table5"
    by (simp_all add: heap5_def)
  from shape_mismatch_fails [of stencil5 "(ramp5 int64)\<lparr>a_shape := [4]\<rparr>" heap5
      "stencil5\<lparr>shape := [5, 5]\<rparr>"] a b c
  show ?thesis by simp
qed

subsection \<open>Construction of the table\<close>

lemma py_index_nonneg: "0 \<le> i \<Longrightarrow> i < int n \<Longrightarrow> py_index n i = Inr (nat i)"
  by (simp add: py_index_def)

lemma long_off_inj: "k < ndim \<Longrightarrow> long_off ndim k a = long_off ndim k b \<longleftrightarrow> a = b"
proof
  assume k: "k < ndim" and e: "long_off ndim k a = long_off ndim k b"
  from e have "long_off ndim k a ! k = long_off ndim k b ! k" by simp
  with k show "a = b" by (simp add: long_off_def)
qed simp

lemma contrib_zero:
  "key \<notin> f ` fst ` set zs \<Longrightarrow>
   sum_list (map (\<lambda>(off, c). if f off = key then c / d else 0) zs) = (0::real)"
  by (induction zs) auto

lemma add_offsets_ok:
  assumes k: "py_index ndim ax = Inr k" and d: "d \<noteq> 0"
  shows "\<exists>l'. add_offsets ndim ax d zs l = Inr l' \<and>
           (\<forall>key. map_of l' key =
              (if key \<in> long_off ndim k ` fst ` set zs
               then Some (weight_of l key +
                          sum_list (map (\<lambda>(off, c). if long_off ndim k off = key then c / d else 0) zs))
               else map_of l key)) \<and>
           (dict_ok l \<longrightarrow> dict_ok l')"
proof (induction zs arbitrary: l)
  case Nil
  then show ?case by simp
next
  case (Cons z zs)
  obtain off c where z: "z = (off, c)" by (cases z)
  let ?key = "long_off ndim k off"
  let ?l1 = "AList.update ?key (weight_of l ?key + c / d) l"
  have step: "add_offsets ndim ax d (z # zs) l = add_offsets ndim ax d zs ?l1"
    using k d by (simp add: z weight_of_def split: option.splits)
  from Cons.IH [of ?l1] obtain l' where
    r: "add_offsets ndim ax d zs ?l1 = Inr l'"
    and m: "\<And>key. map_of l' key =
              (if key \<in> long_off ndim k ` fst ` set zs
               then Some (weight_of ?l1 key +
                          sum_list (map (\<lambda>(off, c). if long_off ndim k off = key then c / d else 0) zs))
               else map_of ?l1 key)"
    and ds: "dict_ok ?l1 \<longrightarrow> dict_ok l'"
    by blast
  have w1: "\<And>key. weight_of ?l1 key = (if key = ?key then weight_of l ?key + c / d else weight_of l key)"
    by (simp add: weight_of_def AList.update_conv')
  have m1: "\<And>key. map_of ?l1 key = (if key = ?key then Some (weight_of l ?key + c / d) else map_of l key)"
    by (simp add: AList.update_conv')
  show ?case
  proof (intro exI conjI allI)
    show "add_offsets ndim ax d (z # zs) l = Inr l'" using step r by simp
    show "dict_ok l \<longrightarrow> dict_ok l'"
      using ds by (simp add: dict_ok_def AList.distinct_update)
    fix key
    show "map_of l' key =
              (if key \<in> long_off ndim k ` fst ` set (z # zs)
               then Some (weight_of l key +
                          sum_list (map (\<lambda>(off, c). if long_off ndim k off = key then c / d else 0) (z # zs)))
               else map_of l key)"
      unfolding m w1 m1 by (auto simp: z contrib_zero)
  qed
qed

lemma create_step_ok:
  assumes k: "py_index (length (shape self)) (axis self) = Inr k"
    and g: "gen (order self) (acc self) = Inr cf"
    and d: "h self powi order self \<noteq> 0"
    and len: "length pt = length (shape self)"
  shows "\<exists>l'. add_offsets (length (shape self)) (axis self) (h self powi order self)
                 (zip (offsets (cf (smap (pt ! k)))) (coefficients (cf (smap (pt ! k)))))
                 (case map_of dat pt of Some l \<Rightarrow> l | None \<Rightarrow> []) = Inr l' \<and>
              create_step gen self pt dat = Inr (AList.update pt l' dat)"
proof -
  from add_offsets_ok [OF k d]
  obtain l' where "add_offsets (length (shape self)) (axis self) (h self powi order self)
                 (zip (offsets (cf (smap (pt ! k)))) (coefficients (cf (smap (pt ! k)))))
                 (case map_of dat pt of Some l \<Rightarrow> l | None \<Rightarrow> []) = Inr l'"
    by blast
  then show ?thesis
    using k g len by (simp add: create_step_def)
qed

lemma create_loop_ok:
  assumes k: "py_index (length (shape self)) (axis self) = Inr k"
    and g: "gen (order self) (acc self) = Inr cf"
    and d: "h self powi order self \<noteq> 0"
  shows "\<forall>pt\<in>set pts. length pt = length (shape self) \<Longrightarrow> distinct pts \<Longrightarrow>
     \<exists>dat'. create_loop gen self pts dat = (dat', None) \<and>
       (\<forall>p. p \<notin> set pts \<longrightarrow> map_of dat' p = map_of dat p) \<and>
       (\<forall>p\<in>set pts. \<exists>l'.
          add_offsets (length (shape self)) (axis self) (h self powi order self)
            (zip (offsets (cf (smap (p ! k)))) (coefficients (cf (smap (p ! k)))))
            (case map_of dat p of Some l \<Rightarrow> l | None \<Rightarrow> []) = Inr l' \<and>
          map_of dat' p = Some l') \<and>
       map fst dat' = map fst dat @ filter (\<lambda>p. p \<notin> fst ` set dat) pts"
proof (induction pts arbitrary: dat)
  case Nil
  then show ?case by simp
next
  case (Cons pt pts)
  from Cons.prems have len: "length pt = length (shape self)"
    and lens: "\<forall>p\<in>set pts. length p = length (shape self)"
    and nin: "pt \<notin> set pts" and dist: "distinct pts"
    by simp_all
  from create_step_ok [where gen = gen and self = self and cf = cf and dat = dat, OF k g d len]
  obtain l1 where
    a1: "add_offsets (length (shape self)) (axis self) (h self powi order self)
           (zip (offsets (cf (smap (pt ! k)))) (coefficients (cf (smap (pt ! k)))))
           (case map_of dat pt of Some l \<Rightarrow> l | None \<Rightarrow> []) = Inr l1"
    and s1: "create_step gen self pt dat = Inr (AList.update pt l1 dat)"
    by blast
  let ?d1 = "AList.update pt l1 dat"
  from Cons.IH [OF lens dist, of ?d1] obtain dat' where
    r: "create_loop gen self pts ?d1 = (dat', None)"
    and o: "\<And>p. p \<notin> set pts \<Longrightarrow> map_of dat' p = map_of ?d1 p"
    and i: "\<And>p. p \<in> set pts \<Longrightarrow> \<exists>l'.
          add_offsets (length (shape self)) (axis self) (h self powi order self)
            (zip (offsets (cf (smap (p ! k)))) (coefficients (cf (smap (p ! k)))))
            (case map_of ?d1 p of Some l \<Rightarrow> l | None \<Rightarrow> []) = Inr l' \<and>
          map_of dat' p = Some l'"
    and ks: "map fst dat' = map fst ?d1 @ filter (\<lambda>p. p \<notin> fst ` set ?d1) pts"
    by blast
  have m1: "\<And>p. map_of ?d1 p = (if p = pt then Some l1 else map_of dat p)"
    by (simp add: AList.update_conv')
  show ?case
  proof (rule exI [of _ dat'], intro conjI allI ballI impI)
    show "create_loop gen self (pt # pts) dat = (dat', None)"
      using s1 r by simp
  next
    fix p assume "p \<notin> set (pt # pts)"
    then show "map_of dat' p = map_of dat p"
      using o [of p] by (simp add: m1)
  next
    fix p assume p: "p \<in> set (pt # pts)"
    show "\<exists>l'. add_offsets (length (shape self)) (axis self) (h self powi order self)
            (zip (offsets (cf (smap (p ! k)))) (coefficients (cf (smap (p ! k)))))
            (case map_of dat p of Some l \<Rightarrow> l | None \<Rightarrow> []) = Inr l' \<and>
          map_of dat' p = Some l'"
    proof (cases "p = pt")
      case True
      then show ?thesis using a1 o [of pt] nin by (simp add: m1)
    next
      case False
      with p have "p \<in> set pts" by simp
      from i [OF this] False show ?thesis by (simp add: m1)
    qed
  next
    have f: "filter (\<lambda>p. p \<notin> fst ` set ?d1) pts = filter (\<lambda>p. p \<notin> fst ` set dat) pts"
      using nin by (intro filter_cong) (auto simp: AList.dom_update)
    show "map fst dat' = map fst dat @ filter (\<lambda>p. p \<notin> fst ` set dat) (pt # pts)"
      unfolding ks f by (simp add: AList.update_keys)
  qed
qed


lemma set_char_pts:
  "set (product_lists (replicate n [Low, Center, High])) = {p. length p = n}"
proof -
  have "\<And>p. list_all2 (\<lambda>x ys. x \<in> set ys) p (replicate n [Low, Center, High]) \<longleftrightarrow> length p = n"
  proof -
    fix p :: "sym list"
    have "\<And>x. x \<in> set [Low, Center, High]" 
    proof -
      fix x :: sym show "x \<in> set [Low, Center, High]" by (cases x) simp_all
    qed
    then show "list_all2 (\<lambda>x ys. x \<in> set ys) p (replicate n [Low, Center, High]) \<longleftrightarrow> length p = n"
      by (auto simp: list_all2_conv_all_nth)
  qed
  then show ?thesis by (simp add: product_lists_set)
qed

lemma length_char_pts:
  "length (product_lists (replicate n [Low, Center, High])) = 3 ^ n"
  by (induction n) simp_all

lemma distinct_char_pts:
  "distinct (product_lists (replicate n [Low, Center, High]))"
  by (rule distinct_product_lists) simp

lemma contrib_inj:
  "k < ndim \<Longrightarrow>
   sum_list (map (\<lambda>(off', c). if long_off ndim k off' = long_off ndim k off then c / d else 0) zs) =
   sum_list (map (\<lambda>(off', c). if off' = off then c / d else (0::real)) zs)"
  by (simp add: long_off_inj)

lemma Stencil_init_result:
  assumes ax: "0 \<le> ax" "ax < int (length shp)"
    and hh: "0 < hh"
    and g: "gen ord ac = Inr cf"
  shows "\<exists>hp' self.
     Stencil_init gen hp shp ax ord hh ac None = (hp', Inr self) \<and>
     self = \<lparr>shape = shp, axis = ax, order = ord, h = hh, acc = ac, data = nxt hp\<rparr> \<and>
     map fst (cells hp' (data self)) = product_lists (replicate (length shp) [Low, Center, High]) \<and>
     fst ` set (cells hp' (data self)) = {p. length p = length shp} \<and>
     distinct (map fst (cells hp' (data self))) \<and>
     length (cells hp' (data self)) = 3 ^ length shp \<and>
     (\<forall>p. length p = length shp \<longrightarrow>
        (\<exists>l. map_of (cells hp' (data self)) p = Some l \<and>
           distinct (map fst l) \<and>
           fst ` set l =
             (\<lambda>off. (replicate (length shp) 0)[nat ax := off]) `
               fst ` set (zip (offsets (cf (smap (p ! nat ax))))
                              (coefficients (cf (smap (p ! nat ax))))) \<and>
           (\<forall>off \<in> fst ` set (zip (offsets (cf (smap (p ! nat ax))))
                                   (coefficients (cf (smap (p ! nat ax))))).
              map_of l ((replicate (length shp) 0)[nat ax := off]) =
                Some (sum_list (map (\<lambda>(off', c). if off' = off then c / hh powi ord else 0)
                        (zip (offsets (cf (smap (p ! nat ax))))
                             (coefficients (cf (smap (p ! nat ax))))))))))"
proof -
  let ?n = "length shp"
  let ?self = "\<lparr>shape = shp, axis = ax, order = ord, h = hh, acc = ac, data = nxt hp\<rparr>"
  let ?pts = "product_lists (replicate ?n [Low, Center, High])"
  let ?d = "hh powi ord"
  let ?zs = "\<lambda>p. zip (offsets (cf (smap (p ! nat ax)))) (coefficients (cf (smap (p ! nat ax))))"
  have k: "py_index (length (shape ?self)) (axis ?self) = Inr (nat ax)"
    using ax by (simp add: py_index_nonneg)
  have kn: "nat ax < ?n" using ax by simp
  have g': "gen (order ?self) (acc ?self) = Inr cf" using g by simp
  have d: "h ?self powi order ?self \<noteq> 0" using hh by simp
  have lens: "\<forall>pt\<in>set ?pts. length pt = length (shape ?self)"
    by (simp add: set_char_pts)
  from create_loop_ok [where gen = gen and self = ?self and cf = cf and dat = "[]",
      OF k g' d lens distinct_char_pts]
  obtain dat' where
    r: "create_loop gen ?self ?pts [] = (dat', None)"
    and i: "\<And>p. p \<in> set ?pts \<Longrightarrow> \<exists>l'.
          add_offsets ?n ax ?d (?zs p) [] = Inr l' \<and> map_of dat' p = Some l'"
    and ks: "map fst dat' = ?pts"
    by auto
  let ?hp' = "\<lparr>cells = (cells hp)(nxt hp := dat'), nxt = Suc (nxt hp)\<rparr>"
  have init: "Stencil_init gen hp shp ax ord hh ac None = (?hp', Inr ?self)"
    by (simp add: Stencil_init_def alloc_def Stencil_create_stencil_def
        Stencil_det_characteristic_points_def r)
  have c: "cells ?hp' (data ?self) = dat'" by simp
  have per: "\<exists>l. map_of dat' p = Some l \<and> distinct (map fst l) \<and>
           fst ` set l = (\<lambda>off. (replicate ?n 0)[nat ax := off]) ` fst ` set (?zs p) \<and>
           (\<forall>off \<in> fst ` set (?zs p).
              map_of l ((replicate ?n 0)[nat ax := off]) =
                Some (sum_list (map (\<lambda>(off', c). if off' = off then c / ?d else 0) (?zs p))))"
    if p: "length p = ?n" for p
  proof -
    from p have "p \<in> set ?pts" by (simp add: set_char_pts)
    from i [OF this] obtain l where a: "add_offsets ?n ax ?d (?zs p) [] = Inr l"
      and m: "map_of dat' p = Some l" by blast
    have k0: "py_index ?n ax = Inr (nat ax)" using k by simp
    have d0: "?d \<noteq> 0" using d by simp
    from add_offsets_ok [OF k0 d0, of "?zs p" "[]"] a
    have mo: "\<And>key. map_of l key =
              (if key \<in> long_off ?n (nat ax) ` fst ` set (?zs p)
               then Some (sum_list (map (\<lambda>(off, c). if long_off ?n (nat ax) off = key then c / ?d else 0) (?zs p)))
               else None)"
      and dl: "dict_ok l"
      by (auto simp: weight_of_def dict_ok_def)
    have lo: "long_off ?n (nat ax) = (\<lambda>off. (replicate ?n 0)[nat ax := off])"
      by (rule ext) (simp add: long_off_def)
    have "dom (map_of l) = long_off ?n (nat ax) ` fst ` set (?zs p)"
      by (auto simp: mo dom_def)
    then have keys: "fst ` set l = long_off ?n (nat ax) ` fst ` set (?zs p)"
      by (simp add: dom_map_of_conv_image_fst)
    have w: "map_of l (long_off ?n (nat ax) off) =
                Some (sum_list (map (\<lambda>(off', c). if off' = off then c / ?d else 0) (?zs p)))"
      if "off \<in> fst ` set (?zs p)" for off
      using that by (simp add: mo contrib_inj [OF kn])
    show ?thesis
      using m dl keys w unfolding lo dict_ok_def by blast
  qed
  show ?thesis
  proof (rule exI [of _ ?hp'], rule exI [of _ ?self], intro conjI)
    show "Stencil_init gen hp shp ax ord hh ac None = (?hp', Inr ?self)" by (rule init)
    show "?self = ?self" ..
    show "map fst (cells ?hp' (data ?self)) = ?pts" unfolding c by (rule ks)
    show "fst ` set (cells ?hp' (data ?self)) = {p. length p = ?n}"
      unfolding c using ks set_char_pts [of ?n] by (metis set_map)
    show "distinct (map fst (cells ?hp' (data ?self)))"
      unfolding c ks by (rule distinct_char_pts)
    show "length (cells ?hp' (data ?self)) = 3 ^ ?n"
      unfolding c using ks length_char_pts [of ?n] by (metis length_map)
    show "\<forall>p. length p = ?n \<longrightarrow>
        (\<exists>l. map_of (cells ?hp' (data ?self)) p = Some l \<and>
           distinct (map fst l) \<and>
           fst ` set l = (\<lambda>off. (replicate ?n 0)[nat ax := off]) ` fst ` set (?zs p) \<and>
           (\<forall>off \<in> fst ` set (?zs p).
              map_of l ((replicate ?n 0)[nat ax := off]) =
                Some (sum_list (map (\<lambda>(off', c). if off' = off then c / ?d else 0) (?zs p)))))"
      unfolding c using per by blast
  qed
qed



subsection \<open>Construction with a seed\<close>

lemmas eval_simps = Stencil_init_def Stencil_create_stencil_def Stencil_det_characteristic_points_def
  create_step_def py_index_def smap_def long_off_def alloc_def coefs_1_2_def gen_1_2_def empty_heap_def
  table5_def stencil5_def heap5_def

text \<open>
  The claim C1 as stated: a construction with a seed copies the seed's table, so that
  afterwards the seed's table is unchanged and shares nothing with the table of the new
  instance. It fails. \<open>stencil5\<close> is the stencil that
  \<open>Stencil((5,), 0, 1, 1.0, 2)\<close> builds on the empty store; the construction
  \<open>Stencil((5,), 0, 1, 1.0, 2, old_stl=stencil5)\<close> returns an instance whose \<open>data\<close>
  is the address of the seed's table, and the seed's table has every weight doubled.
\<close>

theorem seed_table_copied_counterexample:
  "Stencil_init gen_1_2 empty_heap [5] 0 1 1 2 None = (heap5, Inr stencil5) \<and>
   snd (Stencil_init gen_1_2 heap5 [5] 0 1 1 2 (Some stencil5)) = Inr stencil5 \<and>
   cells heap5 (data stencil5) = table5 \<and>
   cells (fst (Stencil_init gen_1_2 heap5 [5] 0 1 1 2 (Some stencil5))) (data stencil5) =
     [([Low], [([0], -3), ([1], 4), ([2], -1)]),
      ([Center], [([-1], -1), ([0], 0), ([1], 1)]),
      ([High], [([-2], 1), ([-1], -4), ([0], 3)])] \<and>
   cells (fst (Stencil_init gen_1_2 heap5 [5] 0 1 1 2 (Some stencil5))) (data stencil5) \<noteq>
     cells heap5 (data stencil5)"
  by (simp add: eval_simps)

text \<open>
  C1, amended. A construction with a seed (\<open>0 \<le> axis < ndim\<close>, \<open>h > 0\<close>, a generator
  that returns tables) does not copy: the new instance holds the seed's own table, and
  the contributions are accumulated into that table in place. Afterwards the table that
  the seed and the new instance share holds, for every pattern of the new shape, at each
  offset of the selected scheme the seed's former weight (zero if it had none) plus the
  new contributions, and every other entry as it was; patterns of another length and
  all other tables are unchanged, and nothing is allocated.
\<close>

theorem seed_table_shared:
  assumes ax: "0 \<le> ax" "ax < int (length shp)"
    and hh: "0 < hh"
    and g: "gen ord ac = Inr cf"
  shows "\<exists>hp'.
     Stencil_init gen hp shp ax ord hh ac (Some old) =
       (hp', Inr \<lparr>shape = shp, axis = ax, order = ord, h = hh, acc = ac, data = data old\<rparr>) \<and>
     nxt hp' = nxt hp \<and>
     (\<forall>a. a \<noteq> data old \<longrightarrow> cells hp' a = cells hp a) \<and>
     (\<forall>p. length p \<noteq> length shp \<longrightarrow>
        map_of (cells hp' (data old)) p = map_of (cells hp (data old)) p) \<and>
     (\<forall>p. length p = length shp \<longrightarrow>
        (\<exists>l'. map_of (cells hp' (data old)) p = Some l' \<and>
           (\<forall>off \<in> fst ` set (zip (offsets (cf (smap (p ! nat ax))))
                                   (coefficients (cf (smap (p ! nat ax))))).
              map_of l' ((replicate (length shp) 0)[nat ax := off]) =
                Some (weight_of (case map_of (cells hp (data old)) p of
                                   Some l \<Rightarrow> l | None \<Rightarrow> [])
                        ((replicate (length shp) 0)[nat ax := off]) +
                      sum_list (map (\<lambda>(off', c). if off' = off then c / hh powi ord else 0)
                        (zip (offsets (cf (smap (p ! nat ax))))
                             (coefficients (cf (smap (p ! nat ax)))))))) \<and>
           (\<forall>key. key \<notin> (\<lambda>off. (replicate (length shp) 0)[nat ax := off]) `
                       fst ` set (zip (offsets (cf (smap (p ! nat ax))))
                                      (coefficients (cf (smap (p ! nat ax))))) \<longrightarrow>
              map_of l' key =
                map_of (case map_of (cells hp (data old)) p of
                          Some l \<Rightarrow> l | None \<Rightarrow> []) key)))"
proof -
  let ?n = "length shp"
  let ?self = "\<lparr>shape = shp, axis = ax, order = ord, h = hh, acc = ac, data = data old\<rparr>"
  let ?pts = "product_lists (replicate ?n [Low, Center, High])"
  let ?d = "hh powi ord"
  let ?zs = "\<lambda>p. zip (offsets (cf (smap (p ! nat ax)))) (coefficients (cf (smap (p ! nat ax))))"
  let ?T = "cells hp (data old)"
  let ?old = "\<lambda>p. case map_of ?T p of Some l \<Rightarrow> l | None \<Rightarrow> []"
  have k: "py_index (length (shape ?self)) (axis ?self) = Inr (nat ax)"
    using ax by (simp add: py_index_nonneg)
  have kn: "nat ax < ?n" using ax by simp
  have g': "gen (order ?self) (acc ?self) = Inr cf" using g by simp
  have d: "h ?self powi order ?self \<noteq> 0" using hh by simp
  have lens: "\<forall>pt\<in>set ?pts. length pt = length (shape ?self)"
    by (simp add: set_char_pts)
  from create_loop_ok [where gen = gen and self = ?self and cf = cf and dat = ?T,
      OF k g' d lens distinct_char_pts]
  obtain dat' where
    r: "create_loop gen ?self ?pts ?T = (dat', None)"
    and o: "\<And>p. p \<notin> set ?pts \<Longrightarrow> map_of dat' p = map_of ?T p"
    and i: "\<And>p. p \<in> set ?pts \<Longrightarrow> \<exists>l'.
          add_offsets ?n ax ?d (?zs p) (?old p) = Inr l' \<and> map_of dat' p = Some l'"
    by auto
  let ?hp' = "hp\<lparr>cells := (cells hp)(data old := dat')\<rparr>"
  have init: "Stencil_init gen hp shp ax ord hh ac (Some old) = (?hp', Inr ?self)"
    by (simp add: Stencil_init_def Stencil_create_stencil_def
        Stencil_det_characteristic_points_def r)
  have c: "cells ?hp' (data old) = dat'" by simp
  have lo: "long_off ?n (nat ax) = (\<lambda>off. (replicate ?n 0)[nat ax := off])"
    by (rule ext) (simp add: long_off_def)
  have per: "\<exists>l'. map_of dat' p = Some l' \<and>
           (\<forall>off \<in> fst ` set (?zs p).
              map_of l' ((replicate ?n 0)[nat ax := off]) =
                Some (weight_of (?old p) ((replicate ?n 0)[nat ax := off]) +
                      sum_list (map (\<lambda>(off', c). if off' = off then c / ?d else 0) (?zs p)))) \<and>
           (\<forall>key. key \<notin> (\<lambda>off. (replicate ?n 0)[nat ax := off]) ` fst ` set (?zs p) \<longrightarrow>
              map_of l' key = map_of (?old p) key)"
    if p: "length p = ?n" for p
  proof -
    from p have "p \<in> set ?pts" by (simp add: set_char_pts)
    from i [OF this] obtain l' where a: "add_offsets ?n ax ?d (?zs p) (?old p) = Inr l'"
      and m: "map_of dat' p = Some l'" by blast
    have k0: "py_index ?n ax = Inr (nat ax)" using k by simp
    have d0: "?d \<noteq> 0" using d by simp
    from add_offsets_ok [OF k0 d0, of "?zs p" "?old p"] a
    have mo: "\<And>key. map_of l' key =
              (if key \<in> long_off ?n (nat ax) ` fst ` set (?zs p)
               then Some (weight_of (?old p) key +
                 sum_list (map (\<lambda>(off, c). if long_off ?n (nat ax) off = key then c / ?d else 0) (?zs p)))
               else map_of (?old p) key)"
      by auto
    have w: "map_of l' (long_off ?n (nat ax) off) =
                Some (weight_of (?old p) (long_off ?n (nat ax) off) +
                      sum_list (map (\<lambda>(off', c). if off' = off then c / ?d else 0) (?zs p)))"
      if "off \<in> fst ` set (?zs p)" for off
      using that by (simp add: mo contrib_inj [OF kn])
    have u: "map_of l' key = map_of (?old p) key"
      if "key \<notin> long_off ?n (nat ax) ` fst ` set (?zs p)" for key
      using that by (simp add: mo)
    show ?thesis
      using m w u unfolding lo by blast
  qed
  show ?thesis
  proof (rule exI [of _ ?hp'], intro conjI)
    show "Stencil_init gen hp shp ax ord hh ac (Some old) = (?hp', Inr ?self)" by (rule init)
    show "nxt ?hp' = nxt hp" by simp
    show "\<forall>a. a \<noteq> data old \<longrightarrow> cells ?hp' a = cells hp a" by simp
    show "\<forall>p. length p \<noteq> ?n \<longrightarrow> map_of (cells ?hp' (data old)) p = map_of ?T p"
      unfolding c using o by (simp add: set_char_pts)
    show "\<forall>p. length p = ?n \<longrightarrow>
        (\<exists>l'. map_of (cells ?hp' (data old)) p = Some l' \<and>
           (\<forall>off \<in> fst ` set (?zs p).
              map_of l' ((replicate ?n 0)[nat ax := off]) =
                Some (weight_of (?old p) ((replicate ?n 0)[nat ax := off]) +
                      sum_list (map (\<lambda>(off', c). if off' = off then c / ?d else 0) (?zs p)))) \<and>
           (\<forall>key. key \<notin> (\<lambda>off. (replicate ?n 0)[nat ax := off]) ` fst ` set (?zs p) \<longrightarrow>
              map_of l' key = map_of (?old p) key))"
      unfolding c using per by blast
  qed
qed

theorem seed_table_shared_witness:
  "(0::int) \<le> 0 \<and> (0::int) < int (length [5::int]) \<and> (0::real) < 1 \<and>
   gen_1_2 1 2 = Inr coefs_1_2 \<and>
   (\<exists>hp'.
      Stencil_init gen_1_2 heap5 [5] 0 1 1 2 (Some stencil5) =
        (hp', Inr \<lparr>shape = [5], axis = 0, order = 1, h = 1, acc = 2, data = data stencil5\<rparr>) \<and>
      nxt hp' = nxt heap5 \<and>
      (\<exists>l'. map_of (cells hp' (data stencil5)) [Center] = Some l' \<and>
            map_of l' [1] = Some 1 \<and> map_of l' [7] = None))"
proof -
  have a: "(0::int) \<le> 0" "(0::int) < int (length [5::int])" "(0::real) < 1"
    "gen_1_2 1 2 = Inr coefs_1_2"
    by (simp_all add: gen_1_2_def)
  note t = seed_table_shared [where gen = gen_1_2 and hp = heap5 and cf = coefs_1_2
      and shp = "[5]" and ax = 0 and ord = 1 and hh = 1 and ac = 2 and old = stencil5, OF a]
  from t obtain hp' where c:
    "Stencil_init gen_1_2 heap5 [5] 0 1 1 2 (Some stencil5) =
       (hp', Inr \<lparr>shape = [5], axis = 0, order = 1, h = 1, acc = 2, data = data stencil5\<rparr>) \<and>
     nxt hp' = nxt heap5 \<and>
     (\<forall>a. a \<noteq> data stencil5 \<longrightarrow> cells hp' a = cells heap5 a) \<and>
     (\<forall>p. length p \<noteq> length [5::int] \<longrightarrow>
        map_of (cells hp' (data stencil5)) p = map_of (cells heap5 (data stencil5)) p) \<and>
     (\<forall>p. length p = length [5::int] \<longrightarrow>
        (\<exists>l'. map_of (cells hp' (data stencil5)) p = Some l' \<and>
           (\<forall>off \<in> fst ` set (zip (offsets (coefs_1_2 (smap (p ! nat 0))))
                                   (coefficients (coefs_1_2 (smap (p ! nat 0))))).
              map_of l' ((replicate (length [5::int]) 0)[nat 0 := off]) =
                Some (weight_of (case map_of (cells heap5 (data stencil5)) p of
                                   Some l \<Rightarrow> l | None \<Rightarrow> [])
                        ((replicate (length [5::int]) 0)[nat 0 := off]) +
                      sum_list (map (\<lambda>(off', c). if off' = off then c / 1 powi 1 else 0)
                        (zip (offsets (coefs_1_2 (smap (p ! nat 0))))
                             (coefficients (coefs_1_2 (smap (p ! nat 0)))))))) \<and>
           (\<forall>key. key \<notin> (\<lambda>off. (replicate (length [5::int]) 0)[nat 0 := off]) `
                       fst ` set (zip (offsets (coefs_1_2 (smap (p ! nat 0))))
                                      (coefficients (coefs_1_2 (smap (p ! nat 0))))) \<longrightarrow>
              map_of l' key =
                map_of (case map_of (cells heap5 (data stencil5)) p of
                          Some l \<Rightarrow> l | None \<Rightarrow> []) key)))"
    ..
  note i = c [THEN conjunct1]
  note n = c [THEN conjunct2, THEN conjunct1]
  note per = c [THEN conjunct2, THEN conjunct2, THEN conjunct2, THEN conjunct2,
      rule_format, of "[Center]"]
  have "length [Center] = length [5::int]" by simp
  from per [OF this] obtain l' where m: "map_of (cells hp' (data stencil5)) [Center] = Some l'"
    and w0: "\<forall>off \<in> fst ` set (zip (offsets (coefs_1_2 (smap ([Center] ! nat 0))))
                                   (coefficients (coefs_1_2 (smap ([Center] ! nat 0))))).
              map_of l' ((replicate (length [5::int]) 0)[nat 0 := off]) =
                Some (weight_of (case map_of (cells heap5 (data stencil5)) [Center] of
                                   Some l \<Rightarrow> l | None \<Rightarrow> [])
                        ((replicate (length [5::int]) 0)[nat 0 := off]) +
                      sum_list (map (\<lambda>(off', c). if off' = off then c / 1 powi 1 else 0)
                        (zip (offsets (coefs_1_2 (smap ([Center] ! nat 0))))
                             (coefficients (coefs_1_2 (smap ([Center] ! nat 0)))))))"
    and u0: "\<forall>key. key \<notin> (\<lambda>off. (replicate (length [5::int]) 0)[nat 0 := off]) `
                       fst ` set (zip (offsets (coefs_1_2 (smap ([Center] ! nat 0))))
                                      (coefficients (coefs_1_2 (smap ([Center] ! nat 0))))) \<longrightarrow>
              map_of l' key =
                map_of (case map_of (cells heap5 (data stencil5)) [Center] of
                          Some l \<Rightarrow> l | None \<Rightarrow> []) key"
    by (elim exE conjE)
  from w0 have w: "map_of l' [1] = Some 1"
    by (simp add: smap_def coefs_1_2_def weight_of_def heap5_def stencil5_def table5_def)
  from u0 [rule_format, of "[7]"] have u: "map_of l' [7] = None"
    by (simp add: smap_def coefs_1_2_def heap5_def stencil5_def table5_def)
  from a i n m w u show ?thesis by (intro conjI exI)
qed

subsection \<open>Application at a point\<close>

lemma norm_index_in_range:
  "length idx = length shp \<Longrightarrow>
   \<forall>k<length idx. 0 \<le> idx ! k \<and> idx ! k < int (shp ! k) \<Longrightarrow>
   norm_index shp idx = Inr (map nat idx)"
proof (induction shp idx rule: norm_index.induct)
  case (1 shp)
  then show ?case by simp
next
  case (2 i idx)
  then show ?case by simp
next
  case (3 n shp i idx)
  from "3.prems"(2) have h0: "0 \<le> i \<and> i < int n" by (auto dest: spec [of _ 0])
  from "3.prems"(2) have ht: "\<forall>k<length idx. 0 \<le> idx ! k \<and> idx ! k < int (shp ! k)"
    by (auto dest: spec [of _ "Suc k" for k])
  from h0 have p: "py_index n i = Inr (nat i)" by (simp add: py_index_nonneg)
  from "3.prems"(1) have "length idx = length shp" by simp
  from "3.IH" [OF p this ht] p show ?case by simp
qed

lemma getitem_in_range:
  assumes "length idx = length (a_shape u)"
    and "\<forall>k<length idx. 0 \<le> idx ! k \<and> idx ! k < int (a_shape u ! k)"
  shows "getitem u idx = Inr (Scalar (a_val u (map nat idx)))"
  using assms by (simp add: getitem_def norm_index_in_range)

lemma apply_loop_sum:
  assumes len: "length idx0 = length (a_shape u)"
  shows "\<forall>(off, c)\<in>set stl. length off = length idx0 \<and>
           (\<forall>k<length idx0. 0 \<le> idx0 ! k + off ! k \<and> idx0 ! k + off ! k < int (a_shape u ! k)) \<Longrightarrow>
     apply_loop u idx0 stl (Scalar s) =
       Inr (Scalar (s + sum_list (map (\<lambda>(off, c). c * a_val u (map nat (map2 (+) idx0 off))) stl)))"
proof (induction stl arbitrary: s)
  case Nil
  then show ?case by simp
next
  case (Cons z stl)
  obtain off c where z: "z = (off, c)" by (cases z)
  from Cons.prems z have lo: "length off = length idx0"
    and rng: "\<forall>k<length idx0. 0 \<le> idx0 ! k + off ! k \<and> idx0 ! k + off ! k < int (a_shape u ! k)"
    by auto
  from lo have na: "np_add idx0 off = Inr (map2 (+) idx0 off)"
    by (simp add: np_add_def)
  have gi: "getitem u (map2 (+) idx0 off) = Inr (Scalar (a_val u (map nat (map2 (+) idx0 off))))"
    using lo len rng by (intro getitem_in_range) simp_all
  from Cons.prems have rest: "\<forall>(off, c)\<in>set stl. length off = length idx0 \<and>
           (\<forall>k<length idx0. 0 \<le> idx0 ! k + off ! k \<and> idx0 ! k + off ! k < int (a_shape u ! k))"
    by simp
  show ?case
    by (simp add: z na gi Cons.IH [OF rest] algebra_simps)
qed

text \<open>
  C4. Let the shape of \<open>u\<close> be the grid shape, \<open>idx0\<close> an index tuple as long as the
  shape (or the integer \<open>i\<close> standing for the tuple \<open>(i,)\<close>), \<open>stl\<close> the local dictionary
  of its pattern, and let every offset of \<open>stl\<close> be as long as the index and lead to a
  position inside the array. Then \<open>apply\<close> returns the sum of \<open>weight * u[idx0 + offset]\<close>
  over the pairs of \<open>stl\<close>. \<open>apply\<close> returns this number only (the array and the store
  are arguments it cannot change), and the number depends on the stencil through its
  shape and its table alone.
\<close>

theorem apply_weighted_sum:
  assumes shp: "shape self = map int (a_shape u)"
    and i0: "idx0 = TupleIdx idx \<or> (idx0 = IntIdx i \<and> idx = [i])"
    and len: "length idx = length (shape self)"
    and fp: "Stencil_for_point hp self (TupleIdx idx) = Inr stl"
    and inb: "\<forall>(off, c)\<in>set stl. length off = length idx \<and>
           (\<forall>k<length idx. 0 \<le> idx ! k + off ! k \<and> idx ! k + off ! k < shape self ! k)"
  shows "Stencil_apply hp self u idx0 =
           Inr (Scalar (sum_list (map (\<lambda>(off, c). c * a_val u (map nat (map2 (+) idx off))) stl))) \<and>
         (\<forall>hp' self'. shape self' = shape self \<and> cells hp' (data self') = cells hp (data self) \<longrightarrow>
            Stencil_apply hp' self' u idx0 = Stencil_apply hp self u idx0)"
proof -
  let ?f = "\<lambda>ax. if idx ! ax = 0 then Low
                  else if idx ! ax = shape self ! ax - 1 then High else Center"
  let ?axes = "[0..<length (shape self)]"
  have tup: "(case idx0 of IntIdx i \<Rightarrow> [i] | TupleIdx t \<Rightarrow> t) = idx"
    using i0 by auto
  have b: "type_for_point_loop (shape self) idx ?axes = Inr (map ?f ?axes)"
    by (intro type_for_point_loop_map) simp
  have a: "apply_typ_loop (shape self) idx ?axes = Inr (map ?f ?axes)"
    using len by (intro apply_typ_loop_map) simp
  from fp have m: "map_of (cells hp (data self)) (map ?f ?axes) = Some stl"
    by (simp add: Stencil_for_point_def len b split: option.splits)
  have lu: "length idx = length (a_shape u)" using len shp by simp
  have inb': "\<forall>(off, c)\<in>set stl. length off = length idx \<and>
           (\<forall>k<length idx. 0 \<le> idx ! k + off ! k \<and> idx ! k + off ! k < int (a_shape u ! k))"
    using inb lu by (auto simp: shp)
  have "Stencil_apply hp self u idx0 = apply_loop u idx stl (Scalar 0)"
    by (simp add: Stencil_apply_def tup a m)
  also have "\<dots> = Inr (Scalar (0 + sum_list (map (\<lambda>(off, c). c * a_val u (map nat (map2 (+) idx off))) stl)))"
    by (rule apply_loop_sum [OF lu inb'])
  finally have r: "Stencil_apply hp self u idx0 =
           Inr (Scalar (sum_list (map (\<lambda>(off, c). c * a_val u (map nat (map2 (+) idx off))) stl)))"
    by simp
  have pure: "\<forall>hp' self'. shape self' = shape self \<and> cells hp' (data self') = cells hp (data self) \<longrightarrow>
            Stencil_apply hp' self' u idx0 = Stencil_apply hp self u idx0"
    by (simp add: Stencil_apply_def Let_def split: sum.splits)
  from r pure show ?thesis by (rule conjI)
qed

theorem apply_weighted_sum_witness:
  "shape stencil5 = map int (a_shape (ramp5 float64)) \<and>
   length [2::int] = length (shape stencil5) \<and>
   Stencil_for_point heap5 stencil5 (TupleIdx [2]) = Inr [([-1], -1/2), ([0], 0), ([1], 1/2)] \<and>
   Stencil_apply heap5 stencil5 (ramp5 float64) (IntIdx 2) = Inr (Scalar 1) \<and>
   Stencil_apply heap5 stencil5 (ramp5 float64) (TupleIdx [2]) = Inr (Scalar 1)"
proof -
  have shp: "shape stencil5 = map int (a_shape (ramp5 float64))"
    by (simp add: stencil5_def ramp5_def)
  have len: "length [2::int] = length (shape stencil5)"
    by (simp add: stencil5_def)
  have fp: "Stencil_for_point heap5 stencil5 (TupleIdx [2]) = Inr [([-1], -1/2), ([0], 0), ([1], 1/2)]"
    by (simp add: Stencil_for_point_def stencil5_def heap5_def table5_def)
  have inb: "\<forall>(off, c)\<in>set [([-1::int], -1/2 :: real), ([0], 0), ([1], 1/2)]. length off = length [2::int] \<and>
      (\<forall>k<length [2::int]. 0 \<le> [2] ! k + off ! k \<and> [2] ! k + off ! k < shape stencil5 ! k)"
    by (simp add: stencil5_def)
  have i1: "IntIdx 2 = TupleIdx [2] \<or> (IntIdx 2 = IntIdx 2 \<and> [2::int] = [2])" by simp
  have i2: "TupleIdx [2] = TupleIdx [2] \<or> (TupleIdx [2] = IntIdx 2 \<and> [2::int] = [2])" by simp
  from apply_weighted_sum [OF shp i1 len fp inb, THEN conjunct1]
  have r1: "Stencil_apply heap5 stencil5 (ramp5 float64) (IntIdx 2) = Inr (Scalar 1)"
    by (simp add: ramp5_def)
  from apply_weighted_sum [OF shp i2 len fp inb, THEN conjunct1]
  have r2: "Stencil_apply heap5 stencil5 (ramp5 float64) (TupleIdx [2]) = Inr (Scalar 1)"
    by (simp add: ramp5_def)
  from shp len fp r1 r2 show ?thesis by (intro conjI)
qed

subsection \<open>Application to the whole grid\<close>







text \<open>The definitions that evaluate an application on concrete data.\<close>

lemmas apply_simps = Stencil_apply_all_def all_indices_def zeros_like_def Stencil_apply_def
  getitem_def np_add_def setitem_def astype_def


text \<open>
  C8. With a generator that returns the canonical tables at order 1 and accuracy 2, the
  stencil \<open>Stencil((5,), 0, 1, 1.0, 2)\<close> is built on any store, and \<open>apply_all\<close> on the
  array \<open>[0, 1, 2, 3, 4]\<close>, of integers or of floats, returns the array
  \<open>[1, 1, 1, 1, 1]\<close> of the same element type: the forward scheme gives 1 at index 0
  and the backward scheme gives 1 at index 4.
\<close>

theorem ramp_derivative_is_one:
  assumes "gen 1 2 = Inr coefs_1_2"
  shows "\<exists>hp' s du.
     Stencil_init gen hp [5] 0 1 1 2 None = (hp', Inr s) \<and>
     Stencil_apply_all hp' s (ramp5 dt) = Inr du \<and>
     a_shape du = [5] \<and> a_dtype du = dt \<and>
     map (\<lambda>i. a_val du [i]) [0..<5] = [1, 1, 1, 1, 1]"
proof -
  let ?s = "\<lparr>shape = [5], axis = 0, order = 1, h = 1, acc = 2, data = nxt hp\<rparr>"
  let ?hp' = "\<lparr>cells = (cells hp)(nxt hp := table5), nxt = Suc (nxt hp)\<rparr>"
  have i: "Stencil_init gen hp [5] 0 1 1 2 None = (?hp', Inr ?s)"
    using assms
    by (simp add: Stencil_init_def Stencil_create_stencil_def
        Stencil_det_characteristic_points_def create_step_def py_index_def smap_def
        long_off_def alloc_def coefs_1_2_def table5_def)
  have a: "\<exists>du. Stencil_apply_all ?hp' ?s (ramp5 dt) = Inr du \<and>
     a_shape du = [5] \<and> a_dtype du = dt \<and>
     map (\<lambda>i. a_val du [i]) [0..<5] = [1, 1, 1, 1, 1]"
    by (cases dt)
      (simp_all add: apply_simps py_index_def table5_def ramp5_def upt_rec numeral_eq_Suc)
  from a obtain du where r: "Stencil_apply_all ?hp' ?s (ramp5 dt) = Inr du \<and>
     a_shape du = [5] \<and> a_dtype du = dt \<and>
     map (\<lambda>i. a_val du [i]) [0..<5] = [1, 1, 1, 1, 1]" ..
  show ?thesis
    by (rule exI [of _ ?hp'], rule exI [of _ ?s], rule exI [of _ du], rule conjI [OF i r])
qed

theorem ramp_derivative_is_one_witness:
  "gen_1_2 1 2 = Inr coefs_1_2 \<and>
   (\<exists>hp' s du.
     Stencil_init gen_1_2 empty_heap [5] 0 1 1 2 None = (hp', Inr s) \<and>
     Stencil_apply_all hp' s (ramp5 int64) = Inr du \<and>
     a_shape du = [5] \<and> a_dtype du = int64 \<and>
     map (\<lambda>i. a_val du [i]) [0..<5] = [1, 1, 1, 1, 1])"
proof -
  have g: "gen_1_2 1 2 = Inr coefs_1_2" by (simp add: gen_1_2_def)
  from g ramp_derivative_is_one [where gen = gen_1_2 and hp = empty_heap and dt = int64, OF g]
  show ?thesis by (rule conjI)
qed

subsection \<open>Combination\<close>

lemma binaryop_single_ok:
  "dict_ok os \<Longrightarrow>
   (\<forall>key. map_of (binaryop_single opr os l) key =
      (case map_of os key of
         None \<Rightarrow> map_of l key
       | Some c \<Rightarrow> Some (opr (weight_of l key) c))) \<and>
   (dict_ok l \<longrightarrow> dict_ok (binaryop_single opr os l))"
proof (induction os arbitrary: l)
  case Nil
  then show ?case by simp
next
  case (Cons z os)
  obtain off c where z: "z = (off, c)" by (cases z)
  let ?l1 = "AList.update off (opr (weight_of l off) c) l"
  from Cons.prems z have nin: "off \<notin> fst ` set os" and d: "dict_ok os"
    by (simp_all add: dict_ok_def)
  have step: "binaryop_single opr (z # os) l = binaryop_single opr os ?l1"
    by (simp add: z weight_of_def split: option.splits)
  from nin have none: "map_of os off = None"
    by (simp add: map_of_eq_None_iff)
  note ih = Cons.IH [OF d, of ?l1]
  have w1: "\<And>key. key \<noteq> off \<Longrightarrow> weight_of ?l1 key = weight_of l key"
    by (simp add: weight_of_def AList.update_conv')
  show ?case
  proof (intro conjI allI impI)
    fix key
    show "map_of (binaryop_single opr (z # os) l) key =
      (case map_of (z # os) key of
         None \<Rightarrow> map_of l key
       | Some c \<Rightarrow> Some (opr (weight_of l key) c))"
    proof (cases "key = off")
      case True
      then show ?thesis
        unfolding step using ih none by (simp add: z AList.update_conv')
    next
      case False
      then show ?thesis
        unfolding step using ih w1 [OF False]
        by (simp add: z AList.update_conv' split: option.splits)
    qed
  next
    assume "dict_ok l"
    then have "dict_ok ?l1" by (simp add: dict_ok_def AList.distinct_update)
    with ih show "dict_ok (binaryop_single opr (z # os) l)"
      unfolding step by simp
  qed
qed

lemma binaryop_single_keys:
  "fst ` set os \<subseteq> fst ` set l \<Longrightarrow>
   map fst (binaryop_single opr os l) = map fst l"
proof (induction os arbitrary: l)
  case Nil
  then show ?case by simp
next
  case (Cons z os)
  obtain off c where z: "z = (off, c)" by (cases z)
  let ?l1 = "AList.update off (opr (weight_of l off) c) l"
  have step: "binaryop_single opr (z # os) l = binaryop_single opr os ?l1"
    by (simp add: z weight_of_def split: option.splits)
  from Cons.prems z have m: "off \<in> fst ` set l" and r: "fst ` set os \<subseteq> fst ` set l"
    by simp_all
  from m have k1: "map fst ?l1 = map fst l" by (simp add: AList.update_keys)
  then have "fst ` set ?l1 = fst ` set l" by (metis set_map)
  with r have "fst ` set os \<subseteq> fst ` set ?l1" by simp
  from Cons.IH [OF this] k1 show ?case unfolding step by simp
qed

lemma binaryop_loop_ok:
  "\<forall>(p, l)\<in>set S. map_of T p \<noteq> None \<Longrightarrow>
   binaryop_loop opr T S =
     (map (\<lambda>(p, l). (p, binaryop_single opr (the (map_of T p)) l)) S, None)"
proof (induction S)
  case Nil
  then show ?case by simp
next
  case (Cons z S)
  obtain p l where z: "z = (p, l)" by (cases z)
  from Cons.prems z obtain ol where m: "map_of T p = Some ol" by auto
  from Cons.prems have "\<forall>(p, l)\<in>set S. map_of T p \<noteq> None" by simp
  from Cons.IH [OF this] show ?case by (simp add: z m)
qed

lemma map_of_map_keyed:
  "map_of (map (\<lambda>(p, l). (p, f p l)) S) p = map_option (f p) (map_of S p)"
  by (induction S) auto

lemma map_fst_map_keyed:
  "map fst (map (\<lambda>(p, l). (p, f p l)) S) = map fst S"
  by (induction S) auto

lemma table_ok_lookup:
  "table_ok T \<Longrightarrow> map_of T p = Some l \<Longrightarrow> dict_ok l"
  by (auto simp: table_ok_def list_all_iff dest: map_of_SomeD)

lemma binaryop_result:
  assumes sh: "shape s = shape t"
    and al: "data s < nxt hp" "data t < nxt hp"
    and keys: "fst ` set (cells hp (data s)) \<subseteq> fst ` set (cells hp (data t))"
  shows "Stencil_binaryop hp s t opr =
     (\<lparr>cells = (cells hp)(nxt hp :=
         map (\<lambda>(p, l). (p, binaryop_single opr (the (map_of (cells hp (data t)) p)) l))
           (cells hp (data s))),
       nxt = Suc (nxt hp)\<rparr>,
      Inr (s\<lparr>data := nxt hp\<rparr>))"
proof -
  let ?S = "cells hp (data s)" and ?T = "cells hp (data t)"
  have "map_of ?T p \<noteq> None" if "(p, l) \<in> set ?S" for p l
  proof -
    from that have "p \<in> fst ` set ?S" by force
    with keys have "p \<in> fst ` set ?T" by blast
    then show ?thesis by (simp add: map_of_eq_None_iff)
  qed
  then have "\<forall>(p, l)\<in>set ?S. map_of ?T p \<noteq> None" by blast
  note lp = binaryop_loop_ok [OF this, of opr]
  have ns: "data s \<noteq> nxt hp" and nt: "data t \<noteq> nxt hp" using al by simp_all
  show ?thesis
    unfolding Stencil_binaryop_def alloc_def
    using sh ns nt lp by simp
qed

lemma char_pts_keys:
  "set (Stencil_det_characteristic_points s) = {p. length p = length (shape s)}"
  by (simp add: Stencil_det_characteristic_points_def set_char_pts)



text \<open>The constructor builds well-formed stencils.\<close>

lemma Stencil_init_frame:
  "nxt (fst (Stencil_init gen hp shp ax ord hh ac None)) = Suc (nxt hp)"
proof -
  let ?self = "\<lparr>shape = shp, axis = ax, order = ord, h = hh, acc = ac, data = nxt hp\<rparr>"
  obtain dat err where
    c: "create_loop gen ?self (Stencil_det_characteristic_points ?self) [] = (dat, err)"
    by (cases "create_loop gen ?self (Stencil_det_characteristic_points ?self) []")
  show ?thesis
    by (cases err) (simp_all add: Stencil_init_def alloc_def Stencil_create_stencil_def c)
qed

lemma Stencil_init_ok:
  assumes ax: "0 \<le> ax" "ax < int (length shp)"
    and hh: "0 < hh"
    and g: "gen ord ac = Inr cf"
  shows "\<exists>hp' self. Stencil_init gen hp shp ax ord hh ac None = (hp', Inr self) \<and>
           stencil_ok hp' self"
proof -
  note t = Stencil_init_result [where gen = gen and hp = hp and cf = cf, OF ax hh g]
  from t obtain hp' where "\<exists>self.
     Stencil_init gen hp shp ax ord hh ac None = (hp', Inr self) \<and>
     self = \<lparr>shape = shp, axis = ax, order = ord, h = hh, acc = ac, data = nxt hp\<rparr> \<and>
     map fst (cells hp' (data self)) = product_lists (replicate (length shp) [Low, Center, High]) \<and>
     fst ` set (cells hp' (data self)) = {p. length p = length shp} \<and>
     distinct (map fst (cells hp' (data self))) \<and>
     length (cells hp' (data self)) = 3 ^ length shp \<and>
     (\<forall>p. length p = length shp \<longrightarrow>
        (\<exists>l. map_of (cells hp' (data self)) p = Some l \<and>
           distinct (map fst l) \<and>
           fst ` set l =
             (\<lambda>off. (replicate (length shp) 0)[nat ax := off]) `
               fst ` set (zip (offsets (cf (smap (p ! nat ax))))
                              (coefficients (cf (smap (p ! nat ax))))) \<and>
           (\<forall>off \<in> fst ` set (zip (offsets (cf (smap (p ! nat ax))))
                                   (coefficients (cf (smap (p ! nat ax))))).
              map_of l ((replicate (length shp) 0)[nat ax := off]) =
                Some (sum_list (map (\<lambda>(off', c). if off' = off then c / hh powi ord else 0)
                        (zip (offsets (cf (smap (p ! nat ax))))
                             (coefficients (cf (smap (p ! nat ax))))))))))"
    (is "\<exists>self. ?P hp' self") ..
  then obtain self where c: "?P hp' self" ..
  note i = c [THEN conjunct1]
  note s = c [THEN conjunct2, THEN conjunct1]
  note ks = c [THEN conjunct2, THEN conjunct2, THEN conjunct2, THEN conjunct1]
  note di = c [THEN conjunct2, THEN conjunct2, THEN conjunct2, THEN conjunct2, THEN conjunct1]
  note per = c [THEN conjunct2, THEN conjunct2, THEN conjunct2, THEN conjunct2,
      THEN conjunct2, THEN conjunct2, rule_format]
  from Stencil_init_frame [of gen hp shp ax ord hh ac] i have n: "nxt hp' = Suc (nxt hp)"
    by simp
  have "dict_ok l" if "(p, l) \<in> set (cells hp' (data self))" for p l
  proof -
    from that have "p \<in> fst ` set (cells hp' (data self))" by force
    with ks have "length p = length shp" by simp
    from per [OF this] obtain l' where
      "map_of (cells hp' (data self)) p = Some l'" "distinct (map fst l')"
      by (elim exE conjE)
    moreover from di that have "map_of (cells hp' (data self)) p = Some l" by simp
    ultimately show ?thesis by (simp add: dict_ok_def)
  qed
  then have la: "list_all (\<lambda>(pt, l). dict_ok l) (cells hp' (data self))"
    unfolding list_all_iff by blast
  have ds: "data self = nxt hp" and ss: "shape self = shp" by (simp_all add: s)
  from ks have "set (map fst (cells hp' (data self))) = set (Stencil_det_characteristic_points self)"
    by (simp add: char_pts_keys ss)
  with di la n ds have "stencil_ok hp' self"
    by (simp add: stencil_ok_def table_ok_def dict_ok_def)
  with i show ?thesis by (intro exI conjI)
qed

text \<open>A construction seeded with a well-formed stencil of the same number of axes
  leaves the shared table well formed for both stencils.\<close>

lemma Stencil_init_seed_ok:
  assumes ax: "0 \<le> ax" "ax < int (length shp)"
    and hh: "0 < hh"
    and g: "gen ord ac = Inr cf"
    and ok: "stencil_ok hp old"
    and len: "length (shape old) = length shp"
  shows "\<exists>hp' self. Stencil_init gen hp shp ax ord hh ac (Some old) = (hp', Inr self) \<and>
           data self = data old \<and> stencil_ok hp' self \<and> stencil_ok hp' old"
proof -
  let ?n = "length shp"
  let ?self = "\<lparr>shape = shp, axis = ax, order = ord, h = hh, acc = ac, data = data old\<rparr>"
  let ?pts = "product_lists (replicate ?n [Low, Center, High])"
  let ?d = "hh powi ord"
  let ?zs = "\<lambda>p. zip (offsets (cf (smap (p ! nat ax)))) (coefficients (cf (smap (p ! nat ax))))"
  let ?T = "cells hp (data old)"
  let ?old = "\<lambda>p. case map_of ?T p of Some l \<Rightarrow> l | None \<Rightarrow> []"
  from ok have al: "data old < nxt hp" and tT: "table_ok ?T"
    and kT: "fst ` set ?T = set ?pts"
    by (simp_all add: stencil_ok_def Stencil_det_characteristic_points_def len)
  have k: "py_index (length (shape ?self)) (axis ?self) = Inr (nat ax)"
    using ax by (simp add: py_index_nonneg)
  have g': "gen (order ?self) (acc ?self) = Inr cf" using g by simp
  have d: "h ?self powi order ?self \<noteq> 0" using hh by simp
  have lens: "\<forall>pt\<in>set ?pts. length pt = length (shape ?self)"
    by (simp add: set_char_pts)
  from create_loop_ok [where gen = gen and self = ?self and cf = cf and dat = ?T,
      OF k g' d lens distinct_char_pts]
  obtain dat' where
    r: "create_loop gen ?self ?pts ?T = (dat', None)"
    and i: "\<And>p. p \<in> set ?pts \<Longrightarrow> \<exists>l'.
          add_offsets ?n ax ?d (?zs p) (?old p) = Inr l' \<and> map_of dat' p = Some l'"
    and ks: "map fst dat' = map fst ?T @ filter (\<lambda>p. p \<notin> fst ` set ?T) ?pts"
    by auto
  let ?hp' = "hp\<lparr>cells := (cells hp)(data old := dat')\<rparr>"
  have init: "Stencil_init gen hp shp ax ord hh ac (Some old) = (?hp', Inr ?self)"
    by (simp add: Stencil_init_def Stencil_create_stencil_def
        Stencil_det_characteristic_points_def r)
  have "filter (\<lambda>p. p \<notin> fst ` set ?T) ?pts = []"
    unfolding kT by (simp add: filter_empty_conv)
  with ks have ks': "map fst dat' = map fst ?T" by simp
  from tT have dT: "distinct (map fst ?T)" by (simp add: table_ok_def dict_ok_def)
  with ks' have dd: "dict_ok dat'" by (simp add: dict_ok_def)
  from ks' have kd: "fst ` set dat' = set ?pts" using kT by (metis set_map)
  have k0: "py_index ?n ax = Inr (nat ax)" using k by simp
  have d0: "?d \<noteq> 0" using d by simp
  have inner: "dict_ok l'" if m: "(p, l') \<in> set dat'" for p l'
  proof -
    from m have "p \<in> fst ` set dat'" by force
    with kd have p: "p \<in> set ?pts" by simp
    from i [OF p] obtain l'' where a: "add_offsets ?n ax ?d (?zs p) (?old p) = Inr l''"
      and m'': "map_of dat' p = Some l''" by blast
    from dd m have "map_of dat' p = Some l'" by (simp add: dict_ok_def)
    with m'' have e: "l'' = l'" by simp
    have "dict_ok (?old p)"
    proof (cases "map_of ?T p")
      case None
      then show ?thesis by (simp add: dict_ok_def)
    next
      case (Some l)
      with table_ok_lookup [OF tT Some] show ?thesis by simp
    qed
    with add_offsets_ok [OF k0 d0, of "?zs p" "?old p"] a e show ?thesis by auto
  qed
  have la: "list_all (\<lambda>(pt, l). dict_ok l) dat'"
    unfolding list_all_iff
  proof
    fix x assume "x \<in> set dat'"
    then have "(fst x, snd x) \<in> set dat'" by simp
    from inner [OF this] show "case x of (pt, l) \<Rightarrow> dict_ok l"
      by (simp add: case_prod_beta)
  qed
  have c: "cells ?hp' (data old) = dat'" by simp
  have n: "nxt ?hp' = nxt hp" by simp
  from kd have kd': "set (map fst dat') = set ?pts" by simp
  have 1: "stencil_ok ?hp' ?self"
    unfolding stencil_ok_def table_ok_def Stencil_det_characteristic_points_def
    using al dd la kd' by (simp add: c)
  have 2: "stencil_ok ?hp' old"
    unfolding stencil_ok_def table_ok_def Stencil_det_characteristic_points_def
    using al dd la kd' by (simp add: c len)
  show ?thesis
  proof (rule exI [of _ ?hp'], rule exI [of _ ?self], intro conjI)
    show "Stencil_init gen hp shp ax ord hh ac (Some old) = (?hp', Inr ?self)" by (rule init)
    show "data ?self = data old" by simp
    show "stencil_ok ?hp' ?self" by (rule 1)
    show "stencil_ok ?hp' old" by (rule 2)
  qed
qed


text \<open>The definitions that evaluate the concrete stores and stencils.\<close>

lemmas fixture_simps = stencil_ok_def table_ok_def dict_ok_def heap5_def heap5b_def
  stencil5_def stencil5b_def table5_def table5b_def Stencil_det_characteristic_points_def


lemma binaryop_self:
  assumes al: "data s < nxt hp" and ok: "table_ok (cells hp (data s))"
  shows "\<exists>hp' r.
     Stencil_binaryop hp s s (-) = (hp', Inr r) \<and>
     r = s\<lparr>data := nxt hp\<rparr> \<and>
     map fst (cells hp' (data r)) = map fst (cells hp (data s)) \<and>
     (\<forall>p l. map_of (cells hp (data s)) p = Some l \<longrightarrow>
        (\<exists>l'. map_of (cells hp' (data r)) p = Some l' \<and>
           map fst l' = map fst l \<and>
           (\<forall>off\<in>fst ` set l. map_of l' off = Some 0)))"
proof -
  let ?S = "cells hp (data s)"
  let ?f = "\<lambda>p l. binaryop_single (-) (the (map_of ?S p)) l"
  let ?R = "map (\<lambda>(p, l). (p, ?f p l)) ?S"
  let ?hp' = "\<lparr>cells = (cells hp)(nxt hp := ?R), nxt = Suc (nxt hp)\<rparr>"
  let ?r = "s\<lparr>data := nxt hp\<rparr>"
  have res: "Stencil_binaryop hp s s (-) = (?hp', Inr ?r)"
    by (rule binaryop_result [OF refl al al subset_refl])
  have cR: "cells ?hp' (data ?r) = ?R" by simp
  have per: "\<exists>l'. map_of ?R p = Some l' \<and> map fst l' = map fst l \<and>
           (\<forall>off\<in>fst ` set l. map_of l' off = Some 0)"
    if m: "map_of ?S p = Some l" for p l
  proof -
    let ?l' = "binaryop_single (-) l l"
    have mr: "map_of ?R p = Some ?l'" by (simp add: map_of_map_keyed m)
    have k: "map fst ?l' = map fst l" by (rule binaryop_single_keys) simp
    from table_ok_lookup [OF ok m] have "dict_ok l" .
    from binaryop_single_ok [OF this, of "(-)" l] have
      mo: "\<And>key. map_of ?l' key =
        (case map_of l key of None \<Rightarrow> map_of l key
         | Some c \<Rightarrow> Some (weight_of l key - c))"
      by simp
    have z: "map_of ?l' off = Some 0" if "off \<in> fst ` set l" for off
    proof -
      from that obtain c where "map_of l off = Some c"
        by (cases "map_of l off") (auto simp: map_of_eq_None_iff)
      then show ?thesis by (simp add: mo weight_of_def)
    qed
    show ?thesis
    proof (rule exI [of _ ?l'], intro conjI ballI)
      show "map_of ?R p = Some ?l'" by (rule mr)
      show "map fst ?l' = map fst l" by (rule k)
      show "map_of ?l' off = Some 0" if "off \<in> fst ` set l" for off
        using that by (rule z)
    qed
  qed
  show ?thesis
  proof (rule exI [of _ ?hp'], rule exI [of _ ?r], intro conjI)
    show "Stencil_binaryop hp s s (-) = (?hp', Inr ?r)" by (rule res)
    show "?r = ?r" ..
    show "map fst (cells ?hp' (data ?r)) = map fst ?S"
      unfolding cR by (rule map_fst_map_keyed)
    show "\<forall>p l. map_of ?S p = Some l \<longrightarrow>
        (\<exists>l'. map_of (cells ?hp' (data ?r)) p = Some l' \<and>
           map fst l' = map fst l \<and>
           (\<forall>off\<in>fst ` set l. map_of l' off = Some 0))"
      unfolding cR by (intro allI impI) (rule per)
  qed
qed

text \<open>
  C6. For a stencil \<open>s\<close> whose table is allocated and well formed (as that of every
  constructed stencil is), \<open>s - s\<close> returns a new stencil whose table has the patterns
  of \<open>s\<close>; at each pattern its local dictionary has the offsets of \<open>s\<close>, and the weight
  of every one of them is exactly zero.
\<close>

theorem self_difference_is_zero:
  assumes "data s < nxt hp" and "table_ok (cells hp (data s))"
  shows "\<exists>hp' r.
     Stencil_sub hp s s = (hp', Inr r) \<and>
     r = s\<lparr>data := nxt hp\<rparr> \<and>
     map fst (cells hp' (data r)) = map fst (cells hp (data s)) \<and>
     (\<forall>p l. map_of (cells hp (data s)) p = Some l \<longrightarrow>
        (\<exists>l'. map_of (cells hp' (data r)) p = Some l' \<and>
           map fst l' = map fst l \<and>
           (\<forall>off\<in>fst ` set l. map_of l' off = Some 0)))"
  unfolding Stencil_sub_def using assms by (rule binaryop_self)

theorem self_difference_is_zero_witness:
  "data stencil5 < nxt heap5 \<and> table_ok (cells heap5 (data stencil5)) \<and>
   (\<exists>hp' r l'.
      Stencil_sub heap5 stencil5 stencil5 = (hp', Inr r) \<and>
      map fst (cells hp' (data r)) = [[Low], [Center], [High]] \<and>
      map_of (cells hp' (data r)) [High] = Some l' \<and>
      map fst l' = [[-2], [-1], [0]] \<and>
      map_of l' [-2] = Some 0 \<and> map_of l' [-1] = Some 0 \<and> map_of l' [0] = Some 0)"
proof -
  have al: "data stencil5 < nxt heap5" by (simp add: heap5_def stencil5_def)
  have ok: "table_ok (cells heap5 (data stencil5))" by (simp add: fixture_simps)
  have m: "map_of (cells heap5 (data stencil5)) [High] = Some [([-2], 1/2), ([-1], -2), ([0], 3/2)]"
    by (simp add: heap5_def stencil5_def table5_def)
  from self_difference_is_zero [OF al ok] obtain hp' where "\<exists>r.
     Stencil_sub heap5 stencil5 stencil5 = (hp', Inr r) \<and>
     r = stencil5\<lparr>data := nxt heap5\<rparr> \<and>
     map fst (cells hp' (data r)) = map fst (cells heap5 (data stencil5)) \<and>
     (\<forall>p l. map_of (cells heap5 (data stencil5)) p = Some l \<longrightarrow>
        (\<exists>l'. map_of (cells hp' (data r)) p = Some l' \<and>
           map fst l' = map fst l \<and>
           (\<forall>off\<in>fst ` set l. map_of l' off = Some 0)))"
    (is "\<exists>r. ?P hp' r") ..
  then obtain r where c: "?P hp' r" ..
  from c [THEN conjunct2, THEN conjunct2, THEN conjunct1]
  have ks: "map fst (cells hp' (data r)) = [[Low], [Center], [High]]"
    by (simp add: heap5_def stencil5_def table5_def)
  from c [THEN conjunct2, THEN conjunct2, THEN conjunct2, rule_format, OF m]
  obtain l' where ml: "map_of (cells hp' (data r)) [High] = Some l'"
    and kl: "map fst l' = map fst [([-2::int], 1/2 :: real), ([-1], -2), ([0], 3/2)]"
    and z: "\<forall>off\<in>fst ` set [([-2::int], 1/2 :: real), ([-1], -2), ([0], 3/2)].
              map_of l' off = Some 0"
    by (elim exE conjE)
  from kl have kl': "map fst l' = [[-2], [-1], [0]]" by simp
  from z have z2: "map_of l' [-2] = Some 0" and z1: "map_of l' [-1] = Some 0"
    and z0: "map_of l' [0] = Some 0"
    by simp_all
  from c [THEN conjunct1] ks ml kl' z2 z1 z0
  have "\<exists>hp' r l'.
      Stencil_sub heap5 stencil5 stencil5 = (hp', Inr r) \<and>
      map fst (cells hp' (data r)) = [[Low], [Center], [High]] \<and>
      map_of (cells hp' (data r)) [High] = Some l' \<and>
      map fst l' = [[-2], [-1], [0]] \<and>
      map_of l' [-2] = Some 0 \<and> map_of l' [-1] = Some 0 \<and> map_of l' [0] = Some 0"
    by (intro exI conjI)
  with al ok show ?thesis by (intro conjI)
qed

end
